theory Spec2Isabelle
  imports Main
begin

section \<open>Data model of \<open>search_r1/llm_agent/tensor_helper.py\<close>\<close>

text \<open>
  \<open>TensorConfig\<close> is a dataclass of four integers. Only \<open>pad_token_id\<close> is read by
  \<open>TensorHelper\<close>.
\<close>

record TensorConfig =
  pad_token_id :: int
  max_prompt_length :: int
  max_obs_length :: int
  max_start_length :: int

text \<open>
  A 2-D torch tensor of shape \<open>(b, L)\<close> is a list of \<open>b\<close> rows together with the
  column count \<open>L\<close>: a tensor with no rows still has a second dimension
  (\<open>responses.shape[1]\<close> is read from such a tensor). Integer tensors hold \<open>int\<close>
  (token ids are only compared for equality; the running sums of a 0/1 mask stay far
  below \<open>2 ^ 63\<close>), boolean tensors hold \<open>bool\<close>, index tensors hold \<open>nat\<close>.
\<close>

record 'a tensor =
  ncols :: nat
  rows :: "'a list list"

definition wf_tensor :: "'a tensor \<Rightarrow> bool" where
  "wf_tensor t = list_all (\<lambda>r. length r = ncols t) (rows t)"

text \<open>The exceptions the module can raise, by Python class.\<close>

datatype runtime_error = EmptyReduction | EmptyTensorList | SizeMismatch

datatype error =
  KeyError string
  | IndexError
  | AssertionError
  | RuntimeError runtime_error

section \<open>Mask and position-index derivation\<close>

text \<open>\<open>torch.where(input_ids != self.config.pad_token_id, 1, 0)\<close>\<close>

definition create_attention_mask :: "TensorConfig \<Rightarrow> int tensor \<Rightarrow> int tensor" where
  "create_attention_mask cfg input_ids =
     \<lparr>ncols = ncols input_ids,
      rows = map (map (\<lambda>x. if x \<noteq> pad_token_id cfg then 1 else 0)) (rows input_ids)\<rparr>"

text \<open>\<open>torch.cumsum(_, dim=1)\<close> on one row: the inclusive running sum, left to right.\<close>

fun cumsum_from :: "int \<Rightarrow> int list \<Rightarrow> int list" where
  "cumsum_from acc [] = []"
| "cumsum_from acc (x # xs) = (acc + x) # cumsum_from (acc + x) xs"

definition cumsum :: "int list \<Rightarrow> int list" where
  "cumsum r = cumsum_from 0 r"

text \<open>\<open>(torch.cumsum(attention_mask, dim=1) - 1) * attention_mask\<close>\<close>

definition create_position_ids :: "int tensor \<Rightarrow> int tensor" where
  "create_position_ids attention_mask =
     \<lparr>ncols = ncols attention_mask,
      rows = map (\<lambda>r. map2 (\<lambda>c a. (c - 1) * a) (cumsum r) r) (rows attention_mask)\<rparr>"

section \<open>Pad-side converter\<close>

text \<open>
  One row of \<open>mask.to(torch.int64)\<close>, where \<open>mask\<close> is \<open>tensor != pad_token_id\<close>
  if \<open>pad_to_left\<close> and \<open>tensor == pad_token_id\<close> otherwise.
\<close>

definition mask_row :: "TensorConfig \<Rightarrow> bool \<Rightarrow> int list \<Rightarrow> int list" where
  "mask_row cfg pad_to_left r =
     map (\<lambda>x. if (if pad_to_left then x \<noteq> pad_token_id cfg else x = pad_token_id cfg)
               then 1 else 0) r"

text \<open>
  \<open>argsort(dim=1, stable=True)\<close> on one row: the column indices, sorted ascending by
  their key with a stable sort (\<open>sort_key\<close> is insertion sort, which is stable).
\<close>

definition argsort_stable :: "int list \<Rightarrow> nat list" where
  "argsort_stable ks = sort_key (\<lambda>i. ks ! i) [0..<length ks]"

text \<open>\<open>tensor.gather(1, index)\<close> on one row: \<open>out[j] = row[index[j]]\<close>.\<close>

definition gather :: "'a list \<Rightarrow> nat list \<Rightarrow> 'a list" where
  "gather r idx = map (\<lambda>j. r ! j) idx"

definition convert_pad_structure ::
  "TensorConfig \<Rightarrow> int tensor \<Rightarrow> bool \<Rightarrow> int tensor \<times> nat tensor" where
  "convert_pad_structure cfg t pad_to_left =
     (let key_rows = map (mask_row cfg pad_to_left) (rows t);
          sorted_indices = map argsort_stable key_rows
      in (\<lparr>ncols = ncols t, rows = map2 gather (rows t) sorted_indices\<rparr>,
          \<lparr>ncols = ncols t, rows = sorted_indices\<rparr>))"

section \<open>Concatenation with repadding\<close>

text \<open>
  \<open>torch.cat(tensors, dim=1)\<close> on 2-D tensors: the list must not be empty and the
  tensors must agree on the row count; row \<open>i\<close> of the result is the rows \<open>i\<close> of
  the inputs appended in list order.
\<close>

definition torch_cat_dim1 :: "'a tensor list \<Rightarrow> error + 'a tensor" where
  "torch_cat_dim1 ts =
     (case ts of
        [] \<Rightarrow> Inl (RuntimeError EmptyTensorList)
      | t # us \<Rightarrow>
          if list_all (\<lambda>u. length (rows u) = length (rows t)) us
          then Inr \<lparr>ncols = sum_list (map ncols ts),
                    rows = map (\<lambda>i. concat (map (\<lambda>u. rows u ! i) ts)) [0..<length (rows t)]\<rparr>
          else Inl (RuntimeError SizeMismatch))"

definition concatenate_with_padding ::
  "TensorConfig \<Rightarrow> int tensor list \<Rightarrow> bool \<Rightarrow> error + int tensor" where
  "concatenate_with_padding cfg tensors pad_to_left =
     (case torch_cat_dim1 tensors of
        Inl e \<Rightarrow> Inl e
      | Inr concatenated \<Rightarrow> Inr (fst (convert_pad_structure cfg concatenated pad_to_left)))"

section \<open>Effective-length trimmer\<close>

text \<open>
  Python's slice \<open>xs[start:stop]\<close> with step 1: a negative bound counts from the end,
  and every bound is clamped to \<open>0..len(xs)\<close>.
\<close>

definition slice_index :: "int \<Rightarrow> nat \<Rightarrow> nat" where
  "slice_index i n = (if i < 0 then nat (max (i + int n) 0) else min (nat i) n)"

definition slice_bounds :: "int option \<Rightarrow> int option \<Rightarrow> nat \<Rightarrow> nat \<times> nat" where
  "slice_bounds start stop n =
     ((case start of None \<Rightarrow> 0 | Some i \<Rightarrow> slice_index i n),
      (case stop of None \<Rightarrow> n | Some j \<Rightarrow> slice_index j n))"

definition py_slice :: "int option \<Rightarrow> int option \<Rightarrow> 'a list \<Rightarrow> 'a list" where
  "py_slice start stop xs =
     (let (lo, hi) = slice_bounds start stop (length xs) in take (hi - lo) (drop lo xs))"

text \<open>\<open>t[:, start:stop]\<close>\<close>

definition slice_cols :: "int option \<Rightarrow> int option \<Rightarrow> 'a tensor \<Rightarrow> 'a tensor" where
  "slice_cols start stop t =
     (let (lo, hi) = slice_bounds start stop (ncols t)
      in \<lparr>ncols = hi - lo, rows = map (py_slice start stop) (rows t)\<rparr>)"

text \<open>Python's \<open>max\<close> of a non-empty sequence, and torch's \<open>.max()\<close> of a non-empty tensor.\<close>

fun max_list :: "'a::linorder list \<Rightarrow> 'a" where
  "max_list (x # xs) = foldl max x xs"
| "max_list [] = undefined"

text \<open>
  \<open>tensor_dict['attention_mask'].sum(dim=1).max()\<close>: the row sums, then their maximum;
  torch raises a RuntimeError for the maximum of a tensor with no elements.
\<close>

definition effective_len :: "int tensor \<Rightarrow> error + int" where
  "effective_len attention_mask =
     (if rows attention_mask = [] then Inl (RuntimeError EmptyReduction)
      else Inr (max_list (map sum_list (rows attention_mask))))"

type_synonym tensor_dict = "string \<rightharpoonup> int tensor"

text \<open>
  The two dictionaries alive in \<open>cut_to_effective_len\<close>: the argument and the
  shallow copy that is returned.
\<close>

record cut_locals =
  tensor_dict :: tensor_dict
  result :: tensor_dict

text \<open>
  The loop \<open>for key in keys\<close>. \<open>tensor_dict[key]\<close> raises KeyError for an absent key;
  \<open>effective_len\<close> is an integer, so \<open>-effective_len\<close> is its negation.
\<close>

fun cut_loop :: "int \<Rightarrow> bool \<Rightarrow> string list \<Rightarrow> cut_locals \<Rightarrow> error + cut_locals" where
  "cut_loop e cut_left [] st = Inr st"
| "cut_loop e cut_left (key # keys) st =
     (case tensor_dict st key of
        None \<Rightarrow> Inl (KeyError key)
      | Some t \<Rightarrow>
          cut_loop e cut_left keys
            (st\<lparr>result := (result st)(key \<mapsto>
                 (if cut_left then slice_cols (Some (- e)) None t
                  else slice_cols None (Some e) t))\<rparr>))"

definition cut_to_effective_len_locals ::
  "tensor_dict \<Rightarrow> string list \<Rightarrow> bool \<Rightarrow> error + cut_locals" where
  "cut_to_effective_len_locals d keys cut_left =
     (case d ''attention_mask'' of
        None \<Rightarrow> Inl (KeyError ''attention_mask'')
      | Some attention_mask \<Rightarrow>
          (case effective_len attention_mask of
             Inl err \<Rightarrow> Inl err
           | Inr e \<Rightarrow> cut_loop e cut_left keys \<lparr>tensor_dict = d, result = d\<rparr>))"

text \<open>The value returned by \<open>cut_to_effective_len\<close> is the local \<open>result\<close>.\<close>

definition cut_to_effective_len ::
  "tensor_dict \<Rightarrow> string list \<Rightarrow> bool \<Rightarrow> error + tensor_dict" where
  "cut_to_effective_len d keys cut_left =
     (case cut_to_effective_len_locals d keys cut_left of
        Inl err \<Rightarrow> Inl err
      | Inr st \<Rightarrow> Inr (result st))"

section \<open>Example-level reconciliation\<close>

text \<open>
  \<open>active_mask.sum()\<close> of a 1-D boolean tensor is the number of its True entries.

  \<open>padded_responses[active_mask] = responses\<close> with a 1-D boolean mask over the rows:
  the rows at the True positions are overwritten, in scan order, by the rows of the
  source. The source must have as many rows as the mask has True entries, or one row,
  which torch broadcasts; anything else is a RuntimeError.
\<close>

fun count_true :: "bool list \<Rightarrow> nat" where
  "count_true [] = 0"
| "count_true (b # bs) = (if b then 1 else 0) + count_true bs"

fun scatter_rows :: "'a list \<Rightarrow> bool list \<Rightarrow> 'a list \<Rightarrow> 'a list" where
  "scatter_rows (d # ds) (True # ms) (s # ss) = s # scatter_rows ds ms ss"
| "scatter_rows (d # ds) (False # ms) ss = d # scatter_rows ds ms ss"
| "scatter_rows ds _ _ = ds"

definition masked_assign :: "'a list \<Rightarrow> bool list \<Rightarrow> 'a list \<Rightarrow> error + 'a list" where
  "masked_assign dest active src =
     (let c = count_true active in
      if length src = c then Inr (scatter_rows dest active src)
      else if length src = 1 then Inr (scatter_rows dest active (replicate c (hd src)))
      else Inl (RuntimeError SizeMismatch))"

text \<open>
  The loop \<open>for i, is_active in enumerate(active_mask)\<close> with its cursor \<open>s\<close>;
  \<open>responses_str[s]\<close> raises IndexError when the list is too short.
\<close>

fun str_loop ::
  "bool list \<Rightarrow> nat \<Rightarrow> nat \<Rightarrow> string list \<Rightarrow> string list \<Rightarrow> error + string list" where
  "str_loop [] i s padded_responses_str responses_str = Inr padded_responses_str"
| "str_loop (is_active # ms) i s padded_responses_str responses_str =
     (if is_active then
        (if s < length responses_str
         then str_loop ms (i + 1) (s + 1)
                (padded_responses_str[i := responses_str ! s]) responses_str
         else Inl IndexError)
      else str_loop ms (i + 1) s padded_responses_str responses_str)"

definition example_level_pad ::
  "TensorConfig \<Rightarrow> int tensor \<Rightarrow> string list \<Rightarrow> bool list
     \<Rightarrow> error + (int tensor \<times> string list)" where
  "example_level_pad cfg responses responses_str active_mask =
     (if count_true active_mask \<noteq> length (rows responses) then Inl AssertionError
      else
        let batch_size = length active_mask;
            seq_len = ncols responses;
            padded_responses = replicate batch_size (replicate seq_len (pad_token_id cfg))
        in case masked_assign padded_responses active_mask (rows responses) of
             Inl e \<Rightarrow> Inl e
           | Inr padded_rows \<Rightarrow>
               (case str_loop active_mask 0 0 (replicate batch_size '''') responses_str of
                  Inl e \<Rightarrow> Inl e
                | Inr padded_responses_str \<Rightarrow>
                    Inr (\<lparr>ncols = seq_len, rows = padded_rows\<rparr>, padded_responses_str)))"

section \<open>Turn-level ragged-batch reconciliation\<close>

text \<open>
  The tensors of this operation have shape \<open>(b, L, *D)\<close>. An entry at \<open>(row, column)\<close>
  is a block of shape \<open>D\<close>: a scalar when \<open>D\<close> is empty, a list of blocks otherwise.
\<close>

datatype cell = Scalar int | Block "cell list"

fun full :: "nat list \<Rightarrow> int \<Rightarrow> cell" where
  "full [] v = Scalar v"
| "full (d # ds) v = Block (replicate d (full ds v))"

fun has_shape :: "nat list \<Rightarrow> cell \<Rightarrow> bool" where
  "has_shape [] (Scalar v) = True"
| "has_shape (d # ds) (Block cs) = (length cs = d \<and> (\<forall>c \<in> set cs. has_shape ds c))"
| "has_shape _ _ = False"

record nd_tensor =
  nd_cols :: nat
  nd_rest :: "nat list"
  nd_rows :: "cell list list"

definition wf_nd :: "nd_tensor \<Rightarrow> bool" where
  "wf_nd t = list_all (\<lambda>r. length r = nd_cols t \<and> list_all (has_shape (nd_rest t)) r)
               (nd_rows t)"

text \<open>
  \<open>batch[b_start:b_start + b, start:start + L, ...] = t\<close> on the rows of \<open>batch\<close>:
  in each of the \<open>b\<close> rows from \<open>b_start\<close> on, the \<open>L\<close> entries from column
  \<open>start\<close> on are replaced by the corresponding row of the source.
\<close>

definition assign_block ::
  "'a list list \<Rightarrow> nat \<Rightarrow> nat \<Rightarrow> nat \<Rightarrow> nat \<Rightarrow> 'a list list \<Rightarrow> 'a list list" where
  "assign_block batch b_start b start L src =
     take b_start batch
     @ map2 (\<lambda>row s. take start row @ s @ drop (start + L) row)
         (take b (drop b_start batch)) src
     @ drop (b_start + b) batch"

text \<open>
  The loop \<open>for b, t in zip(bs, tensors)\<close>. \<open>L_max\<close> is the largest \<open>L\<close>, so
  \<open>L_max - L\<close> is never negative. The target slice has the trailing shape of the first
  tensor; a source whose trailing shape differs does not fit it and is reported as
  torch's size-mismatch RuntimeError (torch's broadcasting of trailing dimensions of
  size 1 is outside this model: the ragged list of the data model shares one trailing
  shape).
\<close>

fun copy_loop ::
  "bool \<Rightarrow> nat \<Rightarrow> nat list \<Rightarrow> nat \<Rightarrow> (nat \<times> nd_tensor) list \<Rightarrow> cell list list
     \<Rightarrow> error + cell list list" where
  "copy_loop pad_to_left L_max rest b_start [] batch = Inr batch"
| "copy_loop pad_to_left L_max rest b_start ((b, t) # bts) batch =
     (let L = nd_cols t;
          start = (if pad_to_left then L_max - L else 0)
      in if nd_rest t \<noteq> rest then Inl (RuntimeError SizeMismatch)
         else copy_loop pad_to_left L_max rest (b_start + b) bts
                (assign_block batch b_start b start L (nd_rows t)))"

definition turn_level_pad_and_concatenate ::
  "TensorConfig \<Rightarrow> nd_tensor list \<Rightarrow> bool \<Rightarrow> error + nd_tensor" where
  "turn_level_pad_and_concatenate cfg tensors pad_to_left =
     (case tensors of
        [] \<Rightarrow> Inl IndexError
      | t0 # _ \<Rightarrow>
          let rest = nd_rest t0;
              bs = map (\<lambda>t. length (nd_rows t)) tensors;
              lengths = map nd_cols tensors;
              L_max = max_list lengths;
              n = sum_list bs;
              batch = replicate n (replicate L_max (full rest (pad_token_id cfg)))
          in case copy_loop pad_to_left L_max rest 0 (zip bs tensors) batch of
               Inl e \<Rightarrow> Inl e
             | Inr filled \<Rightarrow> Inr \<lparr>nd_cols = L_max, nd_rest = rest, nd_rows = filled\<rparr>)"

section \<open>Vocabulary of the properties\<close>

text \<open>
  The class of a token that \<open>convert_pad_structure\<close> puts first: the pad token when
  padding goes to the left, a real token when padding goes to the right.
\<close>

definition goes_first :: "TensorConfig \<Rightarrow> bool \<Rightarrow> int \<Rightarrow> bool" where
  "goes_first cfg pad_to_left x =
     (if pad_to_left then x = pad_token_id cfg else x \<noteq> pad_token_id cfg)"

text \<open>
  A stable partition of a list: the elements of the class \<open>P\<close> in their original
  order, then the others in their original order.
\<close>

definition stable_partition :: "('a \<Rightarrow> bool) \<Rightarrow> 'a list \<Rightarrow> 'a list" where
  "stable_partition P r = filter P r @ filter (\<lambda>x. \<not> P x) r"

text \<open>
  Pad-left layout of a row: after the leading block of pad tokens no pad token occurs.
  Pad-right layout is the mirror image.
\<close>

definition pad_left_row :: "TensorConfig \<Rightarrow> int list \<Rightarrow> bool" where
  "pad_left_row cfg r =
     (pad_token_id cfg \<notin> set (dropWhile (\<lambda>x. x = pad_token_id cfg) r))"

definition pad_right_row :: "TensorConfig \<Rightarrow> int list \<Rightarrow> bool" where
  "pad_right_row cfg r = pad_left_row cfg (rev r)"

text \<open>
  The first output row of the block of input \<open>k\<close> in turn-level reconciliation: the
  number of rows of the inputs before it.
\<close>

definition row_offset :: "nd_tensor list \<Rightarrow> nat \<Rightarrow> nat" where
  "row_offset ts k = sum_list (map (\<lambda>t. length (nd_rows t)) (take k ts))"

text \<open>
  The rows of one input, each widened from \<open>L\<close> to \<open>L_max\<close> entries with the fill
  entry \<open>c\<close> on the chosen side.
\<close>

definition padded_rows :: "bool \<Rightarrow> nat \<Rightarrow> 'a \<Rightarrow> nat \<Rightarrow> 'a list list \<Rightarrow> 'a list list" where
  "padded_rows pad_to_left L_max c L src =
     map (\<lambda>s. if pad_to_left then replicate (L_max - L) c @ s
               else s @ replicate (L_max - L) c) src"

text \<open>
  The token ids held by an entry of trailing shape \<open>D\<close>, in row-major order. Together
  with \<open>has_shape\<close> it says what an entry is without reference to how it was built.
\<close>

fun cell_values :: "cell \<Rightarrow> int list" where
  "cell_values (Scalar v) = [v]"
| "cell_values (Block cs) = concat (map cell_values cs)"

section \<open>Position indices\<close>

lemma length_cumsum_from: "length (cumsum_from acc r) = length r"
  by (induction r arbitrary: acc) simp_all

lemma nth_cumsum_from:
  "j < length r \<Longrightarrow> cumsum_from acc r ! j = acc + sum_list (take (Suc j) r)"
proof (induction r arbitrary: acc j)
  case Nil
  then show ?case by simp
next
  case (Cons x xs)
  show ?case
  proof (cases j)
    case 0
    then show ?thesis by simp
  next
    case (Suc k)
    with Cons.prems have "k < length xs" by simp
    from Cons.IH [OF this, of "acc + x"] Suc show ?thesis by simp
  qed
qed

lemma sum_list_bits:
  "set r \<subseteq> {0, 1} \<Longrightarrow> sum_list r = int (length (filter (\<lambda>x. x = 1) r))"
  by (induction r) auto

text \<open>The mask derived from token ids has entries 0 and 1 only.\<close>

lemma create_attention_mask_bits:
  "\<forall>r \<in> set (rows (create_attention_mask cfg input_ids)). set r \<subseteq> {0, 1}"
  by (auto simp: create_attention_mask_def)

lemma position_row:
  assumes bits: "set r \<subseteq> {0, 1}" and j: "j < length r"
  shows "map2 (\<lambda>c a. (c - 1) * a) (cumsum r) r ! j =
           (if r ! j = 0 then 0 else int (length (filter (\<lambda>x. x = 1) (take j r))))"
proof -
  have rj: "r ! j = 0 \<or> r ! j = 1"
    using bits j nth_mem by fastforce
  have "set (take j r) \<subseteq> {0, 1}"
    using bits set_take_subset by fastforce
  then have pre: "sum_list (take j r) = int (length (filter (\<lambda>x. x = 1) (take j r)))"
    by (rule sum_list_bits)
  have "cumsum r ! j = sum_list (take (Suc j) r)"
    using nth_cumsum_from [OF j, of 0] by (simp add: cumsum_def)
  also have "\<dots> = sum_list (take j r) + r ! j"
    using j by (simp add: take_Suc_conv_app_nth)
  finally have c: "cumsum r ! j = sum_list (take j r) + r ! j" .
  have "map2 (\<lambda>c a. (c - 1) * a) (cumsum r) r ! j = (cumsum r ! j - 1) * r ! j"
    using j by (simp add: cumsum_def length_cumsum_from)
  with c pre rj show ?thesis by auto
qed

text \<open>
  Claim C6. For an attention mask with values in \<open>{0, 1}\<close>, \<open>create_position_ids\<close>
  returns an array of the same shape; a position whose mask value is 0 holds 0, and
  a position whose mask value is 1 holds the number of 1s strictly to its left in its
  row, that is, the position of the k-th 1 (counted from 0, left to right) holds k,
  wherever the 0 positions lie.
\<close>

theorem create_position_ids_kth:
  assumes "\<forall>r \<in> set (rows m). set r \<subseteq> {0, 1}"
  shows "ncols (create_position_ids m) = ncols m
       \<and> length (rows (create_position_ids m)) = length (rows m)
       \<and> (\<forall>i < length (rows m).
            length (rows (create_position_ids m) ! i) = length (rows m ! i)
          \<and> (\<forall>j < length (rows m ! i).
               (rows m ! i ! j = 0 \<longrightarrow> rows (create_position_ids m) ! i ! j = 0)
             \<and> (rows m ! i ! j = 1 \<longrightarrow> rows (create_position_ids m) ! i ! j =
                   int (length (filter (\<lambda>x. x = 1) (take j (rows m ! i)))))))"
proof -
  have "rows (create_position_ids m) ! i ! j =
          (if rows m ! i ! j = 0 then 0
           else int (length (filter (\<lambda>x. x = 1) (take j (rows m ! i)))))"
    if i: "i < length (rows m)" and j: "j < length (rows m ! i)" for i j
  proof -
    have "set (rows m ! i) \<subseteq> {0, 1}"
      using assms i nth_mem by blast
    from position_row [OF this j] i show ?thesis
      by (simp add: create_position_ids_def)
  qed
  moreover have "length (rows (create_position_ids m) ! i) = length (rows m ! i)"
    if "i < length (rows m)" for i
    using that by (simp add: create_position_ids_def cumsum_def length_cumsum_from)
  ultimately show ?thesis
    by (simp add: create_position_ids_def)
qed

theorem create_position_ids_kth_witness:
  "rows (create_position_ids \<lparr>ncols = 5, rows = [[0, 1, 0, 1, 1], [1, 1, 0, 0, 1]]\<rparr>)
     = [[0, 0, 0, 1, 2], [0, 1, 0, 0, 2]]
   \<and> rows (create_position_ids \<lparr>ncols = 5, rows = [[0, 1, 0, 1, 1], [1, 1, 0, 0, 1]]\<rparr>) ! 0 ! 3
     = int (length (filter (\<lambda>x. x = 1) (take 3 [0, 1, 0, 1, 1 :: int])))"
  using create_position_ids_kth [of "\<lparr>ncols = 5, rows = [[0, 1, 0, 1, 1], [1, 1, 0, 0, 1]]\<rparr>"]
  by (simp add: create_position_ids_def cumsum_def)

section \<open>Stable pad-side conversion\<close>

lemma insort_key_before:
  "\<forall>y \<in> set ys. f x \<le> f y \<Longrightarrow> insort_key f x ys = x # ys"
  by (cases ys) simp_all

lemma insort_key_after:
  "\<forall>y \<in> set xs. f y < f x \<Longrightarrow> insort_key f x (xs @ ys) = xs @ insort_key f x ys"
  by (induction xs) auto

lemma sort_key_bits:
  fixes f :: "'a \<Rightarrow> int"
  assumes "\<forall>y \<in> set xs. f y = 0 \<or> f y = 1"
  shows "sort_key f xs = filter (\<lambda>y. f y = 0) xs @ filter (\<lambda>y. f y = 1) xs"
  using assms
proof (induction xs)
  case Nil
  then show ?case by simp
next
  case (Cons x xs)
  let ?A = "filter (\<lambda>y. f y = 0) xs" and ?B = "filter (\<lambda>y. f y = 1) xs"
  from Cons have ih: "sort_key f xs = ?A @ ?B" by simp
  from Cons.prems have fx: "f x = 0 \<or> f x = 1" by simp
  show ?case
  proof (cases "f x = 0")
    case True
    have "\<forall>y \<in> set (?A @ ?B). f x \<le> f y" using True by auto
    then have "insort_key f x (?A @ ?B) = x # ?A @ ?B" by (rule insort_key_before)
    with ih True show ?thesis by simp
  next
    case False
    with fx have one: "f x = 1" by simp
    have "\<forall>y \<in> set ?A. f y < f x" using one by simp
    then have "insort_key f x (?A @ ?B) = ?A @ insort_key f x ?B" by (rule insort_key_after)
    moreover have "insort_key f x ?B = x # ?B"
      by (rule insort_key_before) (simp add: one)
    ultimately show ?thesis using ih one by simp
  qed
qed

lemma argsort_mask_row:
  "argsort_stable (mask_row cfg pad_to_left r) =
     filter (\<lambda>i. goes_first cfg pad_to_left (r ! i)) [0..<length r]
     @ filter (\<lambda>i. \<not> goes_first cfg pad_to_left (r ! i)) [0..<length r]"
proof -
  let ?ks = "mask_row cfg pad_to_left r"
  have len: "length ?ks = length r" by (simp add: mask_row_def)
  have key: "?ks ! i = (if goes_first cfg pad_to_left (r ! i) then 0 else 1)"
    if "i < length r" for i
    using that by (simp add: mask_row_def goes_first_def)
  have "sort_key (\<lambda>i. ?ks ! i) [0..<length r] =
          filter (\<lambda>i. ?ks ! i = 0) [0..<length r] @ filter (\<lambda>i. ?ks ! i = 1) [0..<length r]"
    by (rule sort_key_bits) (simp add: key)
  moreover have "filter (\<lambda>i. ?ks ! i = 0) [0..<length r] =
                   filter (\<lambda>i. goes_first cfg pad_to_left (r ! i)) [0..<length r]"
    by (rule filter_cong) (simp_all add: key)
  moreover have "filter (\<lambda>i. ?ks ! i = 1) [0..<length r] =
                   filter (\<lambda>i. \<not> goes_first cfg pad_to_left (r ! i)) [0..<length r]"
    by (rule filter_cong) (simp_all add: key)
  ultimately show ?thesis by (simp add: argsort_stable_def len)
qed

lemma gather_filter_upt:
  "gather r (filter (\<lambda>i. P (r ! i)) [0..<length r]) = filter P r"
proof -
  have "filter P (map (\<lambda>i. r ! i) [0..<length r]) =
          map (\<lambda>i. r ! i) (filter (\<lambda>i. P (r ! i)) [0..<length r])"
    by (simp add: filter_map comp_def)
  then show ?thesis by (simp add: gather_def map_nth)
qed

lemma gather_append: "gather r (xs @ ys) = gather r xs @ gather r ys"
  by (simp add: gather_def)

lemma gather_argsort:
  "gather r (argsort_stable (mask_row cfg pad_to_left r)) =
     stable_partition (goes_first cfg pad_to_left) r"
  unfolding argsort_mask_row gather_append stable_partition_def
  by (simp add: gather_filter_upt [of r "goes_first cfg pad_to_left"]
        gather_filter_upt [of r "\<lambda>x. \<not> goes_first cfg pad_to_left x"])

lemma map2_map_same: "map2 f xs (map g xs) = map (\<lambda>x. f x (g x)) xs"
  by (induction xs) simp_all

lemma rows_convert:
  "rows (fst (convert_pad_structure cfg t pad_to_left)) =
     map (stable_partition (goes_first cfg pad_to_left)) (rows t)"
  by (simp add: convert_pad_structure_def Let_def map2_map_same gather_argsort comp_def)

lemma rows_convert_idx:
  "rows (snd (convert_pad_structure cfg t pad_to_left)) =
     map (\<lambda>r. filter (\<lambda>i. goes_first cfg pad_to_left (r ! i)) [0..<length r]
     @ filter (\<lambda>i. \<not> goes_first cfg pad_to_left (r ! i)) [0..<length r]) (rows t)"
  by (simp add: convert_pad_structure_def Let_def argsort_mask_row comp_def)


lemma partition_upt_length:
  "length (filter Q [0..<n] @ filter (\<lambda>i. \<not> Q i) [0..<n]) = n"
  using sum_length_filter_compl [of Q "[0..<n]"] by simp

lemma partition_upt_distinct:
  "distinct (filter Q [0..<n] @ filter (\<lambda>i. \<not> Q i) [0..<n])"
  by auto

lemma partition_upt_set:
  "set (filter Q [0..<n] @ filter (\<lambda>i. \<not> Q i) [0..<n]) = {0..<n}"
  by auto

lemma filter_upt_increasing:
  "a < b \<Longrightarrow> b < length (filter Q [0..<n]) \<Longrightarrow> filter Q [0..<n] ! a < filter Q [0..<n] ! b"
proof -
  assume ab: "a < b" "b < length (filter Q [0..<n])"
  have "sorted_wrt (<) (filter Q [0..<n])"
    by (rule sorted_wrt_filter) simp
  with ab show ?thesis by (simp add: sorted_wrt_nth_less)
qed

lemma partition_upt_class:
  fixes Q :: "nat \<Rightarrow> bool" and n :: nat
  defines "p \<equiv> filter Q [0..<n] @ filter (\<lambda>i. \<not> Q i) [0..<n]"
  assumes b: "b < n"
  shows "Q (p ! b) \<longleftrightarrow> b < length (filter Q [0..<n])"
proof (cases "b < length (filter Q [0..<n])")
  case True
  then have "filter Q [0..<n] ! b \<in> set (filter Q [0..<n])"
    by (rule nth_mem)
  then have "Q (filter Q [0..<n] ! b)" by simp
  with True show ?thesis by (simp add: p_def nth_append)
next
  case False
  have "length p = n" unfolding p_def by (rule partition_upt_length)
  with b False have "b - length (filter Q [0..<n]) < length (filter (\<lambda>i. \<not> Q i) [0..<n])"
    unfolding p_def by simp
  then have "filter (\<lambda>i. \<not> Q i) [0..<n] ! (b - length (filter Q [0..<n]))
               \<in> set (filter (\<lambda>i. \<not> Q i) [0..<n])"
    by (rule nth_mem)
  then have "\<not> Q (filter (\<lambda>i. \<not> Q i) [0..<n] ! (b - length (filter Q [0..<n])))"
    by simp
  with False show ?thesis by (simp add: p_def nth_append)
qed

lemma partition_upt_first:
  fixes Q :: "nat \<Rightarrow> bool" and n :: nat
  defines "p \<equiv> filter Q [0..<n] @ filter (\<lambda>i. \<not> Q i) [0..<n]"
  assumes "a < b" "b < n" "Q (p ! b)"
  shows "Q (p ! a)"
  using assms partition_upt_class [of a n Q] partition_upt_class [of b n Q] by simp

lemma partition_upt_stable:
  fixes Q :: "nat \<Rightarrow> bool" and n :: nat
  defines "p \<equiv> filter Q [0..<n] @ filter (\<lambda>i. \<not> Q i) [0..<n]"
  assumes ab: "a < b" and b: "b < n" and same: "Q (p ! a) \<longleftrightarrow> Q (p ! b)"
  shows "p ! a < p ! b"
proof -
  let ?A = "filter Q [0..<n]" and ?B = "filter (\<lambda>i. \<not> Q i) [0..<n]"
  have len: "length ?A + length ?B = n"
    using partition_upt_length [of Q n] by simp
  have ca: "Q (p ! a) \<longleftrightarrow> a < length ?A"
    unfolding p_def using ab b by (intro partition_upt_class) simp
  have cb: "Q (p ! b) \<longleftrightarrow> b < length ?A"
    unfolding p_def using b by (intro partition_upt_class)
  show ?thesis
  proof (cases "b < length ?A")
    case True
    with ab have "?A ! a < ?A ! b" by (intro filter_upt_increasing)
    with True ab show ?thesis by (simp add: p_def nth_append)
  next
    case False
    with same ca cb have na: "\<not> a < length ?A" by simp
    from False len b have "b - length ?A < length ?B" by simp
    moreover from na ab have "a - length ?A < b - length ?A" by simp
    ultimately have "?B ! (a - length ?A) < ?B ! (b - length ?A)"
      by (intro filter_upt_increasing)
    with False na show ?thesis by (simp add: p_def nth_append)
  qed
qed

text \<open>
  Claim C2. For either target side, \<open>convert_pad_structure\<close> keeps the shape and
  reorders every row by a permutation \<open>p\<close> of its columns (the returned index row):
  the new row is the old one read through \<open>p\<close>; a column of the class that goes first
  is never preceded by a column of the other class; among columns of the same class
  \<open>p\<close> is increasing, so their original left-to-right order is kept. The new row is
  the stable partition of the old one, and its real tokens are those of the old row in
  the same order.
\<close>

theorem convert_pad_structure_stable:
  "ncols (fst (convert_pad_structure cfg t pad_to_left)) = ncols t
 \<and> length (rows (fst (convert_pad_structure cfg t pad_to_left))) = length (rows t)
 \<and> length (rows (snd (convert_pad_structure cfg t pad_to_left))) = length (rows t)
 \<and> (\<forall>i < length (rows t).
      let r = rows t ! i;
          r' = rows (fst (convert_pad_structure cfg t pad_to_left)) ! i;
          p = rows (snd (convert_pad_structure cfg t pad_to_left)) ! i;
          n = length r
      in length p = n \<and> distinct p \<and> set p = {0..<n}
       \<and> r' = map (\<lambda>j. r ! j) p
       \<and> (\<forall>a b. a < b \<and> b < n \<and> goes_first cfg pad_to_left (r' ! b)
              \<longrightarrow> goes_first cfg pad_to_left (r' ! a))
       \<and> (\<forall>a b. a < b \<and> b < n
              \<and> (goes_first cfg pad_to_left (r' ! a) \<longleftrightarrow> goes_first cfg pad_to_left (r' ! b))
              \<longrightarrow> p ! a < p ! b)
       \<and> r' = stable_partition (goes_first cfg pad_to_left) r
       \<and> filter (\<lambda>x. x \<noteq> pad_token_id cfg) r' = filter (\<lambda>x. x \<noteq> pad_token_id cfg) r)"
proof -
  let ?out = "fst (convert_pad_structure cfg t pad_to_left)"
  let ?idx = "snd (convert_pad_structure cfg t pad_to_left)"
  let ?gf = "goes_first cfg pad_to_left"
  have shape: "ncols ?out = ncols t" "length (rows ?out) = length (rows t)"
    "length (rows ?idx) = length (rows t)"
    by (simp_all add: convert_pad_structure_def Let_def)
  have row: "length p = n \<and> distinct p \<and> set p = {0..<n}
       \<and> r' = map (\<lambda>j. r ! j) p
       \<and> (\<forall>a b. a < b \<and> b < n \<and> ?gf (r' ! b) \<longrightarrow> ?gf (r' ! a))
       \<and> (\<forall>a b. a < b \<and> b < n \<and> (?gf (r' ! a) \<longleftrightarrow> ?gf (r' ! b)) \<longrightarrow> p ! a < p ! b)
       \<and> r' = stable_partition ?gf r
       \<and> filter (\<lambda>x. x \<noteq> pad_token_id cfg) r' = filter (\<lambda>x. x \<noteq> pad_token_id cfg) r"
    if i: "i < length (rows t)" and r: "r = rows t ! i" and r': "r' = rows ?out ! i"
      and p: "p = rows ?idx ! i" and n: "n = length r" for i r r' p n
  proof -
    let ?Q = "\<lambda>j. ?gf (r ! j)"
    have pe: "p = filter ?Q [0..<n] @ filter (\<lambda>j. \<not> ?Q j) [0..<n]"
      using i by (simp add: p r n rows_convert_idx)
    have sp: "r' = stable_partition ?gf r"
      using i by (simp add: r' r rows_convert)
    have lp: "length p = n" unfolding pe by (rule partition_upt_length)
    have dp: "distinct p" unfolding pe by (rule partition_upt_distinct)
    have stp: "set p = {0..<n}" unfolding pe by (rule partition_upt_set)
    have g: "r' = map (\<lambda>j. r ! j) p"
      using gather_argsort [of r cfg pad_to_left]
      by (simp add: sp pe n argsort_mask_row gather_def)
    have nth: "r' ! a = r ! (p ! a)" if "a < n" for a
      using that lp by (simp add: g)
    have first: "?gf (r' ! a)" if "a < b" "b < n" "?gf (r' ! b)" for a b
    proof -
      from that have "?Q (p ! b)" by (simp add: nth)
      with that have "?Q (p ! a)"
        unfolding pe by (intro partition_upt_first [of a b n ?Q]) simp_all
      with that show ?thesis by (simp add: nth)
    qed
    have stable: "p ! a < p ! b"
      if "a < b" "b < n" "?gf (r' ! a) \<longleftrightarrow> ?gf (r' ! b)" for a b
    proof -
      from that have "?Q (p ! a) \<longleftrightarrow> ?Q (p ! b)" by (simp add: nth)
      with that show ?thesis
        unfolding pe by (intro partition_upt_stable [of a b n ?Q]) simp_all
    qed
    have reals: "filter (\<lambda>x. x \<noteq> pad_token_id cfg) r' = filter (\<lambda>x. x \<noteq> pad_token_id cfg) r"
      by (cases pad_to_left) (simp_all add: sp stable_partition_def goes_first_def)
    from lp dp stp g first stable sp reals show ?thesis by blast
  qed
  show ?thesis
    using shape row by (simp add: Let_def)
qed

theorem convert_pad_structure_stable_witness:
  "convert_pad_structure
       \<lparr>pad_token_id = 0, max_prompt_length = 8, max_obs_length = 8, max_start_length = 8\<rparr>
       \<lparr>ncols = 5, rows = [[1, 0, 2, 0, 3]]\<rparr> True
     = (\<lparr>ncols = 5, rows = [[0, 0, 1, 2, 3]]\<rparr>, \<lparr>ncols = 5, rows = [[1, 3, 0, 2, 4]]\<rparr>)
   \<and> (0::nat) < length (rows \<lparr>ncols = 5, rows = [[1, 0, 2, 0, 3 :: int]]\<rparr>)
   \<and> distinct [1, 3, 0, 2, 4 :: nat]
   \<and> [0, 0, 1, 2, 3] = stable_partition (\<lambda>x. x = 0) [1, 0, 2, 0, 3 :: int]"
  using convert_pad_structure_stable
    [of "\<lparr>pad_token_id = 0, max_prompt_length = 8, max_obs_length = 8, max_start_length = 8\<rparr>"
        "\<lparr>ncols = 5, rows = [[1, 0, 2, 0, 3]]\<rparr>" True]
  by (simp add: Let_def goes_first_def convert_pad_structure_def mask_row_def argsort_stable_def
        gather_def stable_partition_def upt_rec [of 0] upt_rec [of "Suc 0"] upt_rec [of 2]
        upt_rec [of 3] upt_rec [of 4] upt_rec [of 5])

section \<open>Round trip of the pad-side conversion\<close>

lemma ncols_convert: "ncols (fst (convert_pad_structure cfg t pad_to_left)) = ncols t"
  by (simp add: convert_pad_structure_def Let_def)

lemma goes_first_left: "goes_first cfg True = (\<lambda>x. x = pad_token_id cfg)"
  by (simp add: fun_eq_iff goes_first_def)

lemma goes_first_right: "goes_first cfg False = (\<lambda>x. x \<noteq> pad_token_id cfg)"
  by (simp add: fun_eq_iff goes_first_def)

lemma partition_left_after_right:
  "stable_partition (goes_first cfg True) (stable_partition (goes_first cfg False) r) =
     stable_partition (goes_first cfg True) r"
  by (simp add: stable_partition_def goes_first_left goes_first_right)

lemma partition_pad_left_row:
  "pad_left_row cfg r \<Longrightarrow> stable_partition (goes_first cfg True) r = r"
proof (induction r)
  case Nil
  then show ?case by (simp add: stable_partition_def)
next
  case (Cons x xs)
  show ?case
  proof (cases "x = pad_token_id cfg")
    case True
    with Cons.prems have "pad_left_row cfg xs" by (simp add: pad_left_row_def)
    then have "stable_partition (goes_first cfg True) xs = xs" by (rule Cons.IH)
    with True show ?thesis by (simp add: stable_partition_def goes_first_left)
  next
    case False
    with Cons.prems have no: "pad_token_id cfg \<notin> set xs" by (simp add: pad_left_row_def)
    then have "filter (\<lambda>y. y = pad_token_id cfg) xs = []"
      by (auto simp: filter_empty_conv)
    moreover from no have "filter (\<lambda>y. y \<noteq> pad_token_id cfg) xs = xs"
      by (auto simp: filter_id_conv)
    ultimately show ?thesis using False by (simp add: stable_partition_def goes_first_left)
  qed
qed

text \<open>
  Claim C5. For a tensor in pad-left layout (in every row, no pad token after the
  leading block of pad tokens), converting to pad-right and then back to pad-left
  returns the original tensor.
\<close>

theorem convert_pad_structure_round_trip:
  assumes "\<forall>r \<in> set (rows t). pad_left_row cfg r"
  shows "fst (convert_pad_structure cfg (fst (convert_pad_structure cfg t False)) True) = t"
proof -
  have "map (stable_partition (goes_first cfg True))
          (map (stable_partition (goes_first cfg False)) (rows t)) = rows t"
    using assms by (simp add: partition_left_after_right partition_pad_left_row map_idI)
  then have "rows (fst (convert_pad_structure cfg (fst (convert_pad_structure cfg t False)) True))
               = rows t"
    by (simp only: rows_convert)
  moreover have "ncols (fst (convert_pad_structure cfg (fst (convert_pad_structure cfg t False)) True))
               = ncols t"
    by (simp only: ncols_convert)
  ultimately show ?thesis by simp
qed

theorem convert_pad_structure_round_trip_witness:
  "pad_left_row \<lparr>pad_token_id = 0, max_prompt_length = 8, max_obs_length = 8,
                 max_start_length = 8\<rparr> [0, 0, 5, 6]
   \<and> pad_left_row \<lparr>pad_token_id = 0, max_prompt_length = 8, max_obs_length = 8,
                 max_start_length = 8\<rparr> [0, 7, 8, 9]
   \<and> fst (convert_pad_structure
        \<lparr>pad_token_id = 0, max_prompt_length = 8, max_obs_length = 8, max_start_length = 8\<rparr>
        \<lparr>ncols = 4, rows = [[0, 0, 5, 6], [0, 7, 8, 9]]\<rparr> False)
       = \<lparr>ncols = 4, rows = [[5, 6, 0, 0], [7, 8, 9, 0]]\<rparr>
   \<and> fst (convert_pad_structure
        \<lparr>pad_token_id = 0, max_prompt_length = 8, max_obs_length = 8, max_start_length = 8\<rparr>
        (fst (convert_pad_structure
           \<lparr>pad_token_id = 0, max_prompt_length = 8, max_obs_length = 8, max_start_length = 8\<rparr>
           \<lparr>ncols = 4, rows = [[0, 0, 5, 6], [0, 7, 8, 9]]\<rparr> False)) True)
       = \<lparr>ncols = 4, rows = [[0, 0, 5, 6], [0, 7, 8, 9]]\<rparr>"
proof -
  let ?cfg = "\<lparr>pad_token_id = 0, max_prompt_length = 8, max_obs_length = 8,
                max_start_length = 8\<rparr>"
  let ?t = "\<lparr>ncols = 4, rows = [[0, 0, 5, 6], [0, 7, 8, 9 :: int]]\<rparr>"
  have h: "\<forall>r \<in> set (rows ?t). pad_left_row ?cfg r"
    by (simp add: pad_left_row_def)
  have mid: "fst (convert_pad_structure ?cfg ?t False)
               = \<lparr>ncols = 4, rows = [[5, 6, 0, 0], [7, 8, 9, 0]]\<rparr>"
    by (simp add: convert_pad_structure_def Let_def map2_map_same gather_argsort
          stable_partition_def goes_first_right)
  from h mid convert_pad_structure_round_trip [OF h] show ?thesis
    by (simp add: pad_left_row_def)
qed

section \<open>Pad layouts\<close>

text \<open>
  A row is in pad-left layout exactly when it is a block of pad tokens followed by real
  tokens, and in pad-right layout exactly when it is real tokens followed by a block of
  pad tokens. The converter produces the layout it is asked for.
\<close>

lemma takeWhile_eq_replicate: "takeWhile (\<lambda>x. x = p) r = replicate (length (takeWhile (\<lambda>x. x = p) r)) p"
  by (induction r) simp_all

lemma pad_left_row_iff:
  "pad_left_row cfg r \<longleftrightarrow>
     (\<exists>k ra. r = replicate k (pad_token_id cfg) @ ra \<and> pad_token_id cfg \<notin> set ra)"
proof
  let ?p = "pad_token_id cfg"
  assume "pad_left_row cfg r"
  then have "?p \<notin> set (dropWhile (\<lambda>x. x = ?p) r)" by (simp add: pad_left_row_def)
  moreover have "r = replicate (length (takeWhile (\<lambda>x. x = ?p) r)) ?p @ dropWhile (\<lambda>x. x = ?p) r"
    using takeWhile_eq_replicate [of ?p r] takeWhile_dropWhile_id [of "\<lambda>x. x = ?p" r] by simp
  ultimately show "\<exists>k ra. r = replicate k ?p @ ra \<and> ?p \<notin> set ra" by blast
next
  let ?p = "pad_token_id cfg"
  assume "\<exists>k ra. r = replicate k ?p @ ra \<and> ?p \<notin> set ra"
  then obtain k ra where r: "r = replicate k ?p @ ra" and ra: "?p \<notin> set ra" by blast
  have "dropWhile (\<lambda>x. x = ?p) (replicate k ?p @ ra) = dropWhile (\<lambda>x. x = ?p) ra"
    by (induction k) simp_all
  moreover have "set (dropWhile (\<lambda>x. x = ?p) ra) \<subseteq> set ra"
    by (rule set_dropWhileD [THEN subsetI])
  ultimately show "pad_left_row cfg r" using r ra by (auto simp: pad_left_row_def)
qed

lemma pad_right_row_iff:
  "pad_right_row cfg r \<longleftrightarrow>
     (\<exists>k rb. r = rb @ replicate k (pad_token_id cfg) \<and> pad_token_id cfg \<notin> set rb)"
proof
  assume "pad_right_row cfg r"
  then obtain k ra where "rev r = replicate k (pad_token_id cfg) @ ra"
    and ra: "pad_token_id cfg \<notin> set ra"
    by (auto simp: pad_right_row_def pad_left_row_iff)
  then have "r = rev ra @ replicate k (pad_token_id cfg)"
    by (simp add: rev_swap)
  with ra show "\<exists>k rb. r = rb @ replicate k (pad_token_id cfg) \<and> pad_token_id cfg \<notin> set rb"
    by (intro exI [of _ k] exI [of _ "rev ra"]) simp
next
  assume "\<exists>k rb. r = rb @ replicate k (pad_token_id cfg) \<and> pad_token_id cfg \<notin> set rb"
  then obtain k rb where "r = rb @ replicate k (pad_token_id cfg)"
    and "pad_token_id cfg \<notin> set rb" by blast
  then have "rev r = replicate k (pad_token_id cfg) @ rev rb \<and> pad_token_id cfg \<notin> set (rev rb)"
    by simp
  then show "pad_right_row cfg r"
    unfolding pad_right_row_def pad_left_row_iff by blast
qed

lemma convert_right_is_pad_right:
  "\<forall>r \<in> set (rows (fst (convert_pad_structure cfg t False))). pad_right_row cfg r"
proof -
  have "pad_right_row cfg (stable_partition (goes_first cfg False) r)" for r
  proof -
    let ?p = "pad_token_id cfg"
    have "filter (\<lambda>x. \<not> x \<noteq> ?p) r = replicate (length (filter (\<lambda>x. x = ?p) r)) ?p"
      by (induction r) simp_all
    then have "stable_partition (goes_first cfg False) r =
                 filter (\<lambda>x. x \<noteq> ?p) r @ replicate (length (filter (\<lambda>x. x = ?p) r)) ?p"
      by (simp add: stable_partition_def goes_first_right)
    moreover have "?p \<notin> set (filter (\<lambda>x. x \<noteq> ?p) r)" by simp
    ultimately show ?thesis unfolding pad_right_row_iff by blast
  qed
  then show ?thesis by (simp add: rows_convert)
qed

lemma convert_left_is_pad_left:
  "\<forall>r \<in> set (rows (fst (convert_pad_structure cfg t True))). pad_left_row cfg r"
proof -
  have "pad_left_row cfg (stable_partition (goes_first cfg True) r)" for r
  proof -
    let ?p = "pad_token_id cfg"
    have "filter (\<lambda>x. x = ?p) r = replicate (length (filter (\<lambda>x. x = ?p) r)) ?p"
      by (induction r) simp_all
    then have "stable_partition (goes_first cfg True) r =
                 replicate (length (filter (\<lambda>x. x = ?p) r)) ?p @ filter (\<lambda>x. x \<noteq> ?p) r"
      by (simp add: stable_partition_def goes_first_left)
    moreover have "?p \<notin> set (filter (\<lambda>x. x \<noteq> ?p) r)" by simp
    ultimately show ?thesis unfolding pad_left_row_iff by blast
  qed
  then show ?thesis by (simp add: rows_convert)
qed

section \<open>Concatenation with repadding: correctness\<close>

lemma torch_cat_dim1_rows:
  assumes "ts \<noteq> []" and "\<forall>t \<in> set ts. length (rows t) = n"
  shows "torch_cat_dim1 ts =
           Inr \<lparr>ncols = sum_list (map ncols ts),
                rows = map (\<lambda>i. concat (map (\<lambda>t. rows t ! i) ts)) [0..<n]\<rparr>"
proof (cases ts)
  case Nil
  with assms show ?thesis by simp
next
  case (Cons t us)
  with assms have "length (rows t) = n" "list_all (\<lambda>u. length (rows u) = length (rows t)) us"
    by (simp_all add: list_all_iff)
  with Cons show ?thesis by (simp add: torch_cat_dim1_def)
qed

lemma convert_closed_form:
  "fst (convert_pad_structure cfg t pad_to_left) =
     \<lparr>ncols = ncols t, rows = map (stable_partition (goes_first cfg pad_to_left)) (rows t)\<rparr>"
  using rows_convert [of cfg t pad_to_left] ncols_convert [of cfg t pad_to_left]
  by (cases "fst (convert_pad_structure cfg t pad_to_left)") simp

lemma partition_left_joined:
  assumes "p \<notin> set ra" and "p \<notin> set rb"
  shows "stable_partition (\<lambda>x. x = p) ((replicate ka p @ ra) @ rb @ replicate kb p) =
           replicate (ka + kb) p @ ra @ rb"
proof -
  from assms have "filter (\<lambda>x. x = p) ra = []" "filter (\<lambda>x. x = p) rb = []"
    by (auto simp: filter_empty_conv)
  moreover from assms have "filter (\<lambda>x. x \<noteq> p) ra = ra" "filter (\<lambda>x. x \<noteq> p) rb = rb"
    by (auto simp: filter_id_conv)
  ultimately show ?thesis
    by (simp add: stable_partition_def replicate_add)
qed

lemma concatenate_with_padding_empty:
  "concatenate_with_padding cfg [] pad_to_left = Inl (RuntimeError EmptyTensorList)"
  by (simp add: concatenate_with_padding_def torch_cat_dim1_def)

text \<open>
  Claim C4. For a non-empty list of tensors with the same number \<open>n\<close> of rows,
  \<open>concatenate_with_padding\<close> returns the pad-side conversion of the column-wise
  concatenation: row \<open>i\<close> of the result is the stable partition of the rows \<open>i\<close>
  of the inputs appended in list order. In particular, for two inputs and pad-left
  output, where row \<open>i\<close> of the first is \<open>ka\<close> pads followed by the real tokens
  \<open>ra\<close> and row \<open>i\<close> of the second is the real tokens \<open>rb\<close> followed by
  \<open>kb\<close> pads, row \<open>i\<close> of the result is \<open>ka + kb\<close> pads followed by \<open>ra\<close>
  and then \<open>rb\<close>. (On the empty list \<open>torch.cat\<close> raises: lemma
  \<open>concatenate_with_padding_empty\<close>.)
\<close>

theorem concatenate_with_padding_spec:
  assumes ne: "ts \<noteq> []" and eq: "\<forall>t \<in> set ts. length (rows t) = n"
  shows "concatenate_with_padding cfg ts pad_to_left =
           Inr (fst (convert_pad_structure cfg
                  \<lparr>ncols = sum_list (map ncols ts),
                   rows = map (\<lambda>i. concat (map (\<lambda>t. rows t ! i) ts)) [0..<n]\<rparr> pad_to_left))
       \<and> concatenate_with_padding cfg ts pad_to_left =
           Inr \<lparr>ncols = sum_list (map ncols ts),
                rows = map (\<lambda>i. stable_partition (goes_first cfg pad_to_left)
                                  (concat (map (\<lambda>t. rows t ! i) ts))) [0..<n]\<rparr>
       \<and> (\<forall>a b. ts = [a, b] \<and> pad_to_left \<longrightarrow>
            (\<forall>i < n. \<forall>ka ra kb rb.
                 rows a ! i = replicate ka (pad_token_id cfg) @ ra
               \<and> pad_token_id cfg \<notin> set ra
               \<and> rows b ! i = rb @ replicate kb (pad_token_id cfg)
               \<and> pad_token_id cfg \<notin> set rb
               \<longrightarrow> (\<exists>out. concatenate_with_padding cfg ts pad_to_left = Inr out
                      \<and> rows out ! i = replicate (ka + kb) (pad_token_id cfg) @ ra @ rb)))"
proof -
  let ?cat = "\<lparr>ncols = sum_list (map ncols ts),
               rows = map (\<lambda>i. concat (map (\<lambda>t. rows t ! i) ts)) [0..<n]\<rparr>"
  let ?res = "\<lparr>ncols = sum_list (map ncols ts),
                rows = map (\<lambda>i. stable_partition (goes_first cfg pad_to_left)
                                  (concat (map (\<lambda>t. rows t ! i) ts))) [0..<n]\<rparr>"
  have cat: "torch_cat_dim1 ts = Inr ?cat"
    using ne eq by (rule torch_cat_dim1_rows)
  then have one: "concatenate_with_padding cfg ts pad_to_left =
                    Inr (fst (convert_pad_structure cfg ?cat pad_to_left))"
    by (simp add: concatenate_with_padding_def)
  have "fst (convert_pad_structure cfg ?cat pad_to_left) = ?res"
    by (simp add: convert_closed_form comp_def)
  with one have two: "concatenate_with_padding cfg ts pad_to_left = Inr ?res" by simp
  have three: "rows ?res ! i = replicate (ka + kb) (pad_token_id cfg) @ ra @ rb"
    if "ts = [a, b]" pad_to_left "i < n"
      "rows a ! i = replicate ka (pad_token_id cfg) @ ra" "pad_token_id cfg \<notin> set ra"
      "rows b ! i = rb @ replicate kb (pad_token_id cfg)" "pad_token_id cfg \<notin> set rb"
    for a b i ka ra kb rb
    using that partition_left_joined [of "pad_token_id cfg" ra rb ka kb]
    by (simp add: goes_first_left)
  from one two three show ?thesis by blast
qed

theorem concatenate_with_padding_spec_witness:
  "[\<lparr>ncols = 2, rows = [[0, 5], [6, 7]]\<rparr>, \<lparr>ncols = 3, rows = [[8, 0, 0], [9, 1, 0 :: int]]\<rparr>] \<noteq> []
   \<and> length (rows \<lparr>ncols = 2, rows = [[0, 5], [6, 7 :: int]]\<rparr>) = 2
   \<and> length (rows \<lparr>ncols = 3, rows = [[8, 0, 0], [9, 1, 0 :: int]]\<rparr>) = 2
   \<and> concatenate_with_padding
        \<lparr>pad_token_id = 0, max_prompt_length = 8, max_obs_length = 8, max_start_length = 8\<rparr>
        [\<lparr>ncols = 2, rows = [[0, 5], [6, 7]]\<rparr>, \<lparr>ncols = 3, rows = [[8, 0, 0], [9, 1, 0]]\<rparr>] True
       = Inr \<lparr>ncols = 5, rows = [[0, 0, 0, 5, 8], [0, 6, 7, 9, 1]]\<rparr>
   \<and> [0, 5] = replicate 1 0 @ [5 :: int]
   \<and> [8, 0, 0] = [8] @ replicate 2 (0 :: int)
   \<and> [0, 0, 0, 5, 8] = replicate (1 + 2) 0 @ [5] @ [8 :: int]"
proof -
  let ?cfg = "\<lparr>pad_token_id = 0, max_prompt_length = 8, max_obs_length = 8,
                max_start_length = 8\<rparr>"
  let ?ts = "[\<lparr>ncols = 2, rows = [[0, 5], [6, 7]]\<rparr>,
              \<lparr>ncols = 3, rows = [[8, 0, 0], [9, 1, 0 :: int]]\<rparr>]"
  have ne: "?ts \<noteq> []" by simp
  have eq: "\<forall>t \<in> set ?ts. length (rows t) = 2" by simp
  from concatenate_with_padding_spec [OF ne eq, of ?cfg True] show ?thesis
    by (simp add: convert_closed_form stable_partition_def goes_first_left upt_rec [of 0]
          upt_rec [of "Suc 0"] upt_rec [of 2] numeral_2_eq_2 numeral_3_eq_3)
qed

section \<open>Example-level reconciliation: correctness\<close>

lemma scatter_rows_Nil [simp]: "scatter_rows ds [] ss = ds"
  by (cases ds) simp_all

lemma scatter_rows_length: "length (scatter_rows ds ms ss) = length ds"
  by (induction ds ms ss rule: scatter_rows.induct) simp_all

lemma scatter_rows_nth:
  "length ds = length ms \<Longrightarrow> count_true ms \<le> length ss \<Longrightarrow> j < length ms \<Longrightarrow>
     scatter_rows ds ms ss ! j =
       (if ms ! j then ss ! count_true (take j ms) else ds ! j)"
proof (induction ms arbitrary: ds ss j)
  case Nil
  then show ?case by simp
next
  case (Cons m ms)
  from Cons.prems(1) obtain d ds' where ds: "ds = d # ds'" and len: "length ds' = length ms"
    by (cases ds) auto
  show ?case
  proof (cases m)
    case True
    with Cons.prems(2) obtain s ss' where ss: "ss = s # ss'"
      and cnt: "count_true ms \<le> length ss'"
      by (cases ss) auto
    show ?thesis
    proof (cases j)
      case 0
      with True ds ss show ?thesis by simp
    next
      case (Suc k)
      with Cons.prems(3) have "k < length ms" by simp
      from Cons.IH [OF len cnt this] True ds ss Suc show ?thesis by simp
    qed
  next
    case False
    with Cons.prems(2) have cnt: "count_true ms \<le> length ss" by simp
    show ?thesis
    proof (cases j)
      case 0
      with False ds show ?thesis by simp
    next
      case (Suc k)
      with Cons.prems(3) have "k < length ms" by simp
      from Cons.IH [OF len cnt this] False ds Suc show ?thesis by simp
    qed
  qed
qed

lemma str_loop_scatter:
  "length out = i + length ms \<Longrightarrow> s + count_true ms \<le> length strs \<Longrightarrow>
     str_loop ms i s out strs =
       Inr (take i out @ scatter_rows (drop i out) ms (drop s strs))"
proof (induction ms arbitrary: i s out)
  case Nil
  then show ?case by simp
next
  case (Cons m ms)
  from Cons.prems(1) have i: "i < length out" by simp
  then have dr: "drop i out = out ! i # drop (Suc i) out"
    by (simp add: Cons_nth_drop_Suc)
  show ?case
  proof (cases m)
    case True
    with Cons.prems(2) have s: "s < length strs"
      and cnt: "Suc s + count_true ms \<le> length strs" by simp_all
    from s have ds: "drop s strs = strs ! s # drop (Suc s) strs"
      by (simp add: Cons_nth_drop_Suc)
    have len: "length (out[i := strs ! s]) = Suc i + length ms"
      using Cons.prems(1) by simp
    have "str_loop ms (Suc i) (Suc s) (out[i := strs ! s]) strs =
            Inr (take (Suc i) (out[i := strs ! s])
                 @ scatter_rows (drop (Suc i) (out[i := strs ! s])) ms (drop (Suc s) strs))"
      using len cnt by (rule Cons.IH)
    moreover have "take (Suc i) (out[i := strs ! s]) = take i out @ [strs ! s]"
      using i by (simp add: take_Suc_conv_app_nth)
    ultimately show ?thesis using True s dr ds by simp
  next
    case False
    with Cons.prems(2) have cnt: "s + count_true ms \<le> length strs" by simp
    have len: "length out = Suc i + length ms" using Cons.prems(1) by simp
    have "str_loop ms (Suc i) s out strs =
            Inr (take (Suc i) out @ scatter_rows (drop (Suc i) out) ms (drop s strs))"
      using len cnt by (rule Cons.IH)
    moreover have "take (Suc i) out = take i out @ [out ! i]"
      using i by (simp add: take_Suc_conv_app_nth)
    ultimately show ?thesis using False dr by simp
  qed
qed

text \<open>
  Claim C1. When the number of True entries of the active mask equals the number of
  rows of the active tensor, and the string list has at least that many entries (a
  parallel list has exactly that many), \<open>_example_level_pad\<close> returns a tensor with
  one row per mask position and the column count of the active tensor, and a string
  list with one entry per mask position. A True position \<open>j\<close> that has \<open>i\<close> True
  positions to its left (the \<open>i\<close>-th True position in scan order) holds row \<open>i\<close>
  of the active tensor and string \<open>i\<close>; a False position holds a row of pad tokens and
  the empty string.
\<close>

theorem example_level_pad_scatter:
  assumes cnt: "count_true active_mask = length (rows responses)"
    and par: "length (rows responses) \<le> length responses_str"
  shows "\<exists>out strs.
           example_level_pad cfg responses responses_str active_mask = Inr (out, strs)
         \<and> ncols out = ncols responses
         \<and> length (rows out) = length active_mask
         \<and> length strs = length active_mask
         \<and> (\<forall>j < length active_mask.
              (active_mask ! j \<longrightarrow>
                   rows out ! j = rows responses ! count_true (take j active_mask)
                 \<and> strs ! j = responses_str ! count_true (take j active_mask))
            \<and> (\<not> active_mask ! j \<longrightarrow>
                   rows out ! j = replicate (ncols responses) (pad_token_id cfg)
                 \<and> strs ! j = ''''))"
proof -
  let ?full = "replicate (length active_mask) (replicate (ncols responses) (pad_token_id cfg))"
  let ?empty = "replicate (length active_mask) ([] :: string)"
  let ?rows = "scatter_rows ?full active_mask (rows responses)"
  let ?strs = "scatter_rows ?empty active_mask responses_str"
  have ma: "masked_assign ?full active_mask (rows responses) = Inr ?rows"
    using cnt by (simp add: masked_assign_def)
  have "str_loop active_mask 0 0 ?empty responses_str =
          Inr (take 0 ?empty @ scatter_rows (drop 0 ?empty) active_mask (drop 0 responses_str))"
    using cnt par by (intro str_loop_scatter) simp_all
  then have sl: "str_loop active_mask 0 0 ?empty responses_str = Inr ?strs" by simp
  have res: "example_level_pad cfg responses responses_str active_mask =
               Inr (\<lparr>ncols = ncols responses, rows = ?rows\<rparr>, ?strs)"
    using cnt ma sl by (simp add: example_level_pad_def Let_def)
  have rj: "?rows ! j = (if active_mask ! j
                         then rows responses ! count_true (take j active_mask)
                         else replicate (ncols responses) (pad_token_id cfg))"
    if "j < length active_mask" for j
    using that cnt by (simp add: scatter_rows_nth)
  have sj: "?strs ! j = (if active_mask ! j
                         then responses_str ! count_true (take j active_mask)
                         else [])"
    if "j < length active_mask" for j
    using that cnt par by (simp add: scatter_rows_nth)
  show ?thesis
    using res rj sj by (simp add: scatter_rows_length)
qed

theorem example_level_pad_scatter_witness:
  "count_true [True, False, True] = length (rows \<lparr>ncols = 2, rows = [[1, 2], [3, 4 :: int]]\<rparr>)
   \<and> length (rows \<lparr>ncols = 2, rows = [[1, 2], [3, 4 :: int]]\<rparr>) \<le> length [''x'', ''y'']
   \<and> example_level_pad
        \<lparr>pad_token_id = 0, max_prompt_length = 8, max_obs_length = 8, max_start_length = 8\<rparr>
        \<lparr>ncols = 2, rows = [[1, 2], [3, 4]]\<rparr> [''x'', ''y''] [True, False, True]
       = Inr (\<lparr>ncols = 2, rows = [[1, 2], [0, 0], [3, 4]]\<rparr>, [''x'', [], ''y''])"
proof -
  let ?cfg = "\<lparr>pad_token_id = 0, max_prompt_length = 8, max_obs_length = 8,
                max_start_length = 8\<rparr>"
  let ?r = "\<lparr>ncols = 2, rows = [[1, 2], [3, 4 :: int]]\<rparr>"
  have h1: "count_true [True, False, True] = length (rows ?r)" by simp
  have h2: "length (rows ?r) \<le> length [''x'', ''y'']" by simp
  from example_level_pad_scatter [OF h1 h2, of ?cfg] show ?thesis
    by (simp add: example_level_pad_def masked_assign_def numeral_2_eq_2 numeral_3_eq_3)
qed

text \<open>
  Claim C9. \<open>_example_level_pad\<close> raises AssertionError, and so returns nothing,
  whenever the number of True entries of the active mask differs from the number of rows
  of the responses tensor.
\<close>

theorem example_level_pad_rejects:
  "count_true active_mask \<noteq> length (rows responses) \<Longrightarrow>
     example_level_pad cfg responses responses_str active_mask = Inl AssertionError"
  by (simp add: example_level_pad_def)

theorem example_level_pad_rejects_witness:
  "count_true [True, False, False] \<noteq> length (rows \<lparr>ncols = 2, rows = [[1, 2], [3, 4 :: int]]\<rparr>)
   \<and> example_level_pad
        \<lparr>pad_token_id = 0, max_prompt_length = 8, max_obs_length = 8, max_start_length = 8\<rparr>
        \<lparr>ncols = 2, rows = [[1, 2], [3, 4]]\<rparr> [''x'', ''y''] [True, False, False]
       = Inl AssertionError"
  using example_level_pad_rejects
    [of "[True, False, False]" "\<lparr>ncols = 2, rows = [[1, 2], [3, 4 :: int]]\<rparr>"
        "\<lparr>pad_token_id = 0, max_prompt_length = 8, max_obs_length = 8, max_start_length = 8\<rparr>"
        "[''x'', ''y'']"]
  by simp

section \<open>Effective-length trimmer: frame, failures, all-padding input\<close>

lemma cut_loop_Inr:
  "cut_loop e cut_left keys st = Inr st' \<Longrightarrow>
     tensor_dict st' = tensor_dict st
   \<and> set keys \<subseteq> dom (tensor_dict st)
   \<and> dom (result st') = dom (result st) \<union> set keys
   \<and> (\<forall>k. k \<notin> set keys \<longrightarrow> result st' k = result st k)"
proof (induction keys arbitrary: st)
  case Nil
  then show ?case by simp
next
  case (Cons key keys)
  from Cons.prems obtain t where t: "tensor_dict st key = Some t"
    by (cases "tensor_dict st key") simp_all
  let ?st = "st\<lparr>result := (result st)(key \<mapsto>
                 (if cut_left then slice_cols (Some (- e)) None t
                  else slice_cols None (Some e) t))\<rparr>"
  from Cons.prems t have "cut_loop e cut_left keys ?st = Inr st'" by simp
  from Cons.IH [OF this] t show ?case by auto
qed

lemma cut_loop_succeeds:
  "set keys \<subseteq> dom (tensor_dict st) \<Longrightarrow> \<exists>st'. cut_loop e cut_left keys st = Inr st'"
proof (induction keys arbitrary: st)
  case Nil
  then show ?case by simp
next
  case (Cons key keys)
  from Cons.prems obtain t where t: "tensor_dict st key = Some t" by auto
  let ?st = "st\<lparr>result := (result st)(key \<mapsto>
                 (if cut_left then slice_cols (Some (- e)) None t
                  else slice_cols None (Some e) t))\<rparr>"
  from Cons.prems have "set keys \<subseteq> dom (tensor_dict ?st)" by simp
  from Cons.IH [OF this] t show ?case by simp
qed

lemma cut_loop_Inl:
  "cut_loop e cut_left keys st = Inl err \<Longrightarrow>
     \<exists>k \<in> set keys. k \<notin> dom (tensor_dict st) \<and> err = KeyError k"
proof (induction keys arbitrary: st)
  case Nil
  then show ?case by simp
next
  case (Cons key keys)
  show ?case
  proof (cases "tensor_dict st key")
    case None
    with Cons.prems show ?thesis by auto
  next
    case (Some t)
    let ?st = "st\<lparr>result := (result st)(key \<mapsto>
                 (if cut_left then slice_cols (Some (- e)) None t
                  else slice_cols None (Some e) t))\<rparr>"
    from Cons.prems Some have "cut_loop e cut_left keys ?st = Inl err" by simp
    from Cons.IH [OF this] show ?thesis by auto
  qed
qed

lemma cut_locals_Inr:
  assumes "cut_to_effective_len_locals d keys cut_left = Inr st"
  shows "tensor_dict st = d \<and> set keys \<subseteq> dom d \<and> dom (result st) = dom d
       \<and> (\<forall>k. k \<notin> set keys \<longrightarrow> result st k = d k)
       \<and> (\<exists>m. d ''attention_mask'' = Some m \<and> rows m \<noteq> [])"
proof -
  from assms obtain m where m: "d ''attention_mask'' = Some m"
    by (cases "d ''attention_mask''") (simp_all add: cut_to_effective_len_locals_def)
  with assms obtain e where e: "effective_len m = Inr e"
    by (cases "effective_len m") (simp_all add: cut_to_effective_len_locals_def)
  then have ne: "rows m \<noteq> []"
    by (auto simp: effective_len_def split: if_splits)
  from assms m e have "cut_loop e cut_left keys \<lparr>tensor_dict = d, result = d\<rparr> = Inr st"
    by (simp add: cut_to_effective_len_locals_def)
  from cut_loop_Inr [OF this] m ne show ?thesis by auto
qed

text \<open>
  Claim C10. A call of \<open>cut_to_effective_len\<close> that returns leaves its argument as it
  was (the local \<open>tensor_dict\<close> still is the argument when the loop ends); the returned
  dictionary has exactly the keys of the argument, and every key outside the key list,
  \<open>attention_mask\<close> included when it is not listed, maps to the tensor it mapped to in
  the argument.
\<close>

theorem cut_to_effective_len_frame:
  assumes "cut_to_effective_len d keys cut_left = Inr r"
  shows "dom r = dom d
       \<and> (\<forall>k. k \<notin> set keys \<longrightarrow> r k = d k)
       \<and> (\<exists>st. cut_to_effective_len_locals d keys cut_left = Inr st
               \<and> tensor_dict st = d \<and> result st = r)"
proof -
  from assms obtain st where st: "cut_to_effective_len_locals d keys cut_left = Inr st"
    and r: "r = result st"
    by (cases "cut_to_effective_len_locals d keys cut_left")
       (simp_all add: cut_to_effective_len_def)
  from cut_locals_Inr [OF st] st r show ?thesis by simp
qed

theorem cut_to_effective_len_frame_witness:
  "cut_to_effective_len
     [''attention_mask'' \<mapsto> \<lparr>ncols = 3, rows = [[0, 1, 1], [0, 0, 1]]\<rparr>,
      ''input_ids'' \<mapsto> \<lparr>ncols = 3, rows = [[0, 6, 7], [0, 0, 9]]\<rparr>]
     [''input_ids''] True
   = Inr [''attention_mask'' \<mapsto> \<lparr>ncols = 3, rows = [[0, 1, 1], [0, 0, 1]]\<rparr>,
          ''input_ids'' \<mapsto> \<lparr>ncols = 2, rows = [[6, 7], [0, 9]]\<rparr>]
   \<and> dom [''attention_mask'' \<mapsto> \<lparr>ncols = 3, rows = [[0, 1, 1], [0, 0, 1 :: int]]\<rparr>,
          ''input_ids'' \<mapsto> \<lparr>ncols = 2, rows = [[6, 7], [0, 9]]\<rparr>]
     = dom [''attention_mask'' \<mapsto> \<lparr>ncols = 3, rows = [[0, 1, 1], [0, 0, 1 :: int]]\<rparr>,
          ''input_ids'' \<mapsto> \<lparr>ncols = 3, rows = [[0, 6, 7], [0, 0, 9]]\<rparr>]"
proof -
  let ?d = "[''attention_mask'' \<mapsto> \<lparr>ncols = 3, rows = [[0, 1, 1], [0, 0, 1 :: int]]\<rparr>,
            ''input_ids'' \<mapsto> \<lparr>ncols = 3, rows = [[0, 6, 7], [0, 0, 9]]\<rparr>]"
  let ?r = "[''attention_mask'' \<mapsto> \<lparr>ncols = 3, rows = [[0, 1, 1], [0, 0, 1 :: int]]\<rparr>,
            ''input_ids'' \<mapsto> \<lparr>ncols = 2, rows = [[6, 7], [0, 9]]\<rparr>]"
  have run: "cut_to_effective_len ?d [''input_ids''] True = Inr ?r"
    by (simp add: cut_to_effective_len_def cut_to_effective_len_locals_def effective_len_def
          slice_cols_def slice_bounds_def slice_index_def py_slice_def)
  from cut_to_effective_len_frame [OF run] run show ?thesis by simp
qed


lemma cut_locals_succeeds:
  assumes m: "d ''attention_mask'' = Some m" and ne: "rows m \<noteq> []"
    and keys: "set keys \<subseteq> dom d"
  shows "\<exists>st. cut_to_effective_len_locals d keys cut_left = Inr st"
proof -
  from ne have e: "effective_len m = Inr (max_list (map sum_list (rows m)))"
    by (simp add: effective_len_def)
  from keys have "set keys \<subseteq> dom (tensor_dict \<lparr>tensor_dict = d, result = d\<rparr>)" by simp
  from cut_loop_succeeds [OF this] m e show ?thesis
    by (simp add: cut_to_effective_len_locals_def)
qed

lemma cut_locals_Inl:
  assumes "cut_to_effective_len_locals d keys cut_left = Inl err"
  shows "(\<exists>k. err = KeyError k) \<or> err = RuntimeError EmptyReduction"
proof (cases "d ''attention_mask''")
  case None
  with assms show ?thesis by (auto simp: cut_to_effective_len_locals_def)
next
  case (Some m)
  show ?thesis
  proof (cases "effective_len m")
    case (Inl x)
    then have "x = RuntimeError EmptyReduction"
      by (auto simp: effective_len_def split: if_splits)
    with assms Some Inl show ?thesis by (simp add: cut_to_effective_len_locals_def)
  next
    case (Inr e)
    with assms Some have "cut_loop e cut_left keys \<lparr>tensor_dict = d, result = d\<rparr> = Inl err"
      by (simp add: cut_to_effective_len_locals_def)
    from cut_loop_Inl [OF this] show ?thesis by auto
  qed
qed

lemma cut_loop_values:
  "cut_loop e cut_left keys st = Inr st' \<Longrightarrow>
     \<forall>k \<in> set keys. result st' k =
        map_option (\<lambda>t. if cut_left then slice_cols (Some (- e)) None t
                        else slice_cols None (Some e) t) (tensor_dict st k)"
proof (induction keys arbitrary: st)
  case Nil
  then show ?case by simp
next
  case (Cons key keys)
  let ?f = "\<lambda>t. if cut_left then slice_cols (Some (- e)) None t else slice_cols None (Some e) t"
  from Cons.prems obtain t where t: "tensor_dict st key = Some t"
    by (cases "tensor_dict st key") simp_all
  let ?st = "st\<lparr>result := (result st)(key \<mapsto> ?f t)\<rparr>"
  from Cons.prems t have run: "cut_loop e cut_left keys ?st = Inr st'" by simp
  from Cons.IH [OF run] have later: "\<forall>k \<in> set keys. result st' k = map_option ?f (tensor_dict st k)"
    by simp
  from cut_loop_Inr [OF run] have frame: "\<forall>k. k \<notin> set keys \<longrightarrow> result st' k = result ?st k"
    by simp
  show ?case
  proof
    fix k assume k: "k \<in> set (key # keys)"
    show "result st' k = map_option ?f (tensor_dict st k)"
    proof (cases "k \<in> set keys")
      case True
      with later show ?thesis by simp
    next
      case False
      with k have "k = key" by simp
      with False frame t show ?thesis by simp
    qed
  qed
qed

lemma slice_cols_rightmost:
  "0 < e \<Longrightarrow> slice_cols (Some (- e)) None t =
     \<lparr>ncols = min (nat e) (ncols t),
      rows = map (\<lambda>row. drop (length row - nat e) row) (rows t)\<rparr>"
proof -
  assume e: "0 < e"
  have idx: "slice_index (- e) n = n - nat e" for n
    using e by (auto simp: slice_index_def)
  have "py_slice (Some (- e)) None row = drop (length row - nat e) row" for row :: "'a list"
    by (simp add: py_slice_def slice_bounds_def idx)
  moreover have "ncols t - (ncols t - nat e) = min (nat e) (ncols t)" by auto
  ultimately show ?thesis
    by (simp add: slice_cols_def slice_bounds_def idx)
qed

lemma slice_cols_leftmost:
  "0 \<le> e \<Longrightarrow> slice_cols None (Some e) t =
     \<lparr>ncols = min (nat e) (ncols t), rows = map (take (nat e)) (rows t)\<rparr>"
proof -
  assume e: "0 \<le> e"
  have idx: "slice_index e n = min (nat e) n" for n
    using e by (simp add: slice_index_def)
  have "py_slice None (Some e) row = take (nat e) row" for row :: "'a list"
    by (simp add: py_slice_def slice_bounds_def idx min_def)
  then show ?thesis
    by (simp add: slice_cols_def slice_bounds_def idx)
qed

lemma cut_to_effective_len_slices:
  assumes m: "d ''attention_mask'' = Some m" and ne: "rows m \<noteq> []"
    and keys: "set keys \<subseteq> dom d"
  shows "\<exists>r. cut_to_effective_len d keys cut_left = Inr r
       \<and> (\<forall>k \<in> set keys. \<forall>t e. d k = Some t \<and> effective_len m = Inr e \<and> 0 < e \<longrightarrow>
             r k = Some \<lparr>ncols = min (nat e) (ncols t),
                          rows = map (\<lambda>row. if cut_left then drop (length row - nat e) row
                                            else take (nat e) row) (rows t)\<rparr>)"
proof -
  let ?e = "max_list (map sum_list (rows m))"
  have e: "effective_len m = Inr ?e" using ne by (simp add: effective_len_def)
  from cut_locals_succeeds [OF m ne keys] obtain st
    where st: "cut_to_effective_len_locals d keys cut_left = Inr st" ..
  then have res: "cut_to_effective_len d keys cut_left = Inr (result st)"
    by (simp add: cut_to_effective_len_def)
  from st m e have "cut_loop ?e cut_left keys \<lparr>tensor_dict = d, result = d\<rparr> = Inr st"
    by (simp add: cut_to_effective_len_locals_def)
  from cut_loop_values [OF this]
  have vals: "\<forall>k \<in> set keys. result st k =
        map_option (\<lambda>t. if cut_left then slice_cols (Some (- ?e)) None t
                        else slice_cols None (Some ?e) t) (d k)"
    by simp
  have "result st k = Some \<lparr>ncols = min (nat e') (ncols t),
                          rows = map (\<lambda>row. if cut_left then drop (length row - nat e') row
                                            else take (nat e') row) (rows t)\<rparr>"
    if "k \<in> set keys" "d k = Some t" "effective_len m = Inr e'" "0 < e'" for k t e'
  proof -
    from that e have e': "e' = ?e" by simp
    from vals that have "result st k = Some (if cut_left then slice_cols (Some (- e')) None t
                        else slice_cols None (Some e') t)"
      by (simp add: e')
    with that(4) show ?thesis
      by (cases cut_left) (simp_all add: slice_cols_rightmost slice_cols_leftmost)
  qed
  with res show ?thesis by blast
qed

lemma cut_to_effective_len_errors:
  "cut_to_effective_len d keys cut_left = Inl err \<Longrightarrow>
     (\<exists>k. err = KeyError k) \<or> err = RuntimeError EmptyReduction"
proof -
  assume "cut_to_effective_len d keys cut_left = Inl err"
  then have "cut_to_effective_len_locals d keys cut_left = Inl err"
    by (cases "cut_to_effective_len_locals d keys cut_left")
       (simp_all add: cut_to_effective_len_def)
  then show ?thesis by (rule cut_locals_Inl)
qed

text \<open>
  Claim C8, as amended. \<open>cut_to_effective_len\<close> compares no sequence dimensions and
  never fails with a size-mismatch error. Whenever the argument holds
  \<open>attention_mask\<close> with at least one row and holds every listed key, it returns a
  dictionary, whatever the column counts are; when the effective length \<open>e\<close> is
  positive, a named array with \<open>L\<close> columns comes back with \<open>min e L\<close> of its own
  columns, the rightmost ones if \<open>cut_left\<close> and the leftmost ones otherwise.
\<close>

theorem cut_to_effective_len_no_shape_check:
  "(d ''attention_mask'' = Some m \<and> rows m \<noteq> [] \<and> set keys \<subseteq> dom d \<longrightarrow>
      (\<exists>r. cut_to_effective_len d keys cut_left = Inr r
         \<and> (\<forall>k \<in> set keys. \<forall>t e. d k = Some t \<and> effective_len m = Inr e \<and> 0 < e \<longrightarrow>
               r k = Some \<lparr>ncols = min (nat e) (ncols t),
                            rows = map (\<lambda>row. if cut_left then drop (length row - nat e) row
                                              else take (nat e) row) (rows t)\<rparr>)))
 \<and> cut_to_effective_len d keys cut_left \<noteq> Inl (RuntimeError SizeMismatch)"
proof -
  have "cut_to_effective_len d keys cut_left \<noteq> Inl (RuntimeError SizeMismatch)"
  proof
    assume "cut_to_effective_len d keys cut_left = Inl (RuntimeError SizeMismatch)"
    from cut_to_effective_len_errors [OF this] show False by simp
  qed
  with cut_to_effective_len_slices [of d m keys cut_left] show ?thesis by blast
qed

theorem cut_to_effective_len_no_shape_check_witness:
  "[''attention_mask'' \<mapsto> \<lparr>ncols = 3, rows = [[1, 1, 0 :: int]]\<rparr>,
    ''input_ids'' \<mapsto> \<lparr>ncols = 5, rows = [[5, 6, 7, 8, 9]]\<rparr>] ''attention_mask''
     = Some \<lparr>ncols = 3, rows = [[1, 1, 0]]\<rparr>
   \<and> rows \<lparr>ncols = 3, rows = [[1, 1, 0 :: int]]\<rparr> \<noteq> []
   \<and> set [''input_ids''] \<subseteq>
       dom [''attention_mask'' \<mapsto> \<lparr>ncols = 3, rows = [[1, 1, 0 :: int]]\<rparr>,
            ''input_ids'' \<mapsto> \<lparr>ncols = 5, rows = [[5, 6, 7, 8, 9]]\<rparr>]
   \<and> effective_len \<lparr>ncols = 3, rows = [[1, 1, 0]]\<rparr> = Inr 2
   \<and> cut_to_effective_len
        [''attention_mask'' \<mapsto> \<lparr>ncols = 3, rows = [[1, 1, 0]]\<rparr>,
         ''input_ids'' \<mapsto> \<lparr>ncols = 5, rows = [[5, 6, 7, 8, 9]]\<rparr>] [''input_ids''] True
       = Inr [''attention_mask'' \<mapsto> \<lparr>ncols = 3, rows = [[1, 1, 0]]\<rparr>,
              ''input_ids'' \<mapsto> \<lparr>ncols = 2, rows = [[8, 9]]\<rparr>]"
proof -
  let ?m = "\<lparr>ncols = 3, rows = [[1, 1, 0 :: int]]\<rparr>"
  let ?d = "[''attention_mask'' \<mapsto> ?m, ''input_ids'' \<mapsto> \<lparr>ncols = 5, rows = [[5, 6, 7, 8, 9]]\<rparr>]"
  have m: "?d ''attention_mask'' = Some ?m" by simp
  have ne: "rows ?m \<noteq> []" by simp
  have keys: "set [''input_ids''] \<subseteq> dom ?d" by simp
  have run: "cut_to_effective_len ?d [''input_ids''] True
       = Inr [''attention_mask'' \<mapsto> ?m, ''input_ids'' \<mapsto> \<lparr>ncols = 2, rows = [[8, 9]]\<rparr>]"
    by (simp add: cut_to_effective_len_def cut_to_effective_len_locals_def effective_len_def
          slice_cols_def slice_bounds_def slice_index_def py_slice_def)
  from cut_to_effective_len_no_shape_check [of ?d ?m "[''input_ids'']" True] m ne keys run
  show ?thesis
    by (simp add: effective_len_def)
qed

text \<open>
  Claim C8 as stated fails: with a mask of 3 columns and a named array of 5 columns the
  call returns, and the named array is cut to its first 2 columns.
\<close>

theorem cut_to_effective_len_mismatch_counterexample:
  "ncols \<lparr>ncols = 5, rows = [[5, 6, 7, 8, 9 :: int]]\<rparr> \<noteq> ncols \<lparr>ncols = 3, rows = [[1, 1, 0 :: int]]\<rparr>
   \<and> cut_to_effective_len
        [''attention_mask'' \<mapsto> \<lparr>ncols = 3, rows = [[1, 1, 0]]\<rparr>,
         ''input_ids'' \<mapsto> \<lparr>ncols = 5, rows = [[5, 6, 7, 8, 9]]\<rparr>] [''input_ids''] False
       = Inr [''attention_mask'' \<mapsto> \<lparr>ncols = 3, rows = [[1, 1, 0]]\<rparr>,
              ''input_ids'' \<mapsto> \<lparr>ncols = 2, rows = [[5, 6]]\<rparr>]"
  by (simp add: cut_to_effective_len_def cut_to_effective_len_locals_def effective_len_def
        slice_cols_def slice_bounds_def slice_index_def py_slice_def)

text \<open>
  Claim C7, at an all-padding mask of one row and two columns. The effective length
  is 0. With \<open>cut_left\<close> false the named array comes back with no columns. With
  \<open>cut_left\<close> true the slice is \<open>[:, -0:]\<close>, which is \<open>[:, 0:]\<close>, and the
  named array comes back whole, with its two columns. With an all-padding mask of no
  rows the maximum of the row sums raises.
\<close>

theorem cut_to_effective_len_all_pad:
  "effective_len \<lparr>ncols = 2, rows = [[0, 0]]\<rparr> = Inr 0
   \<and> cut_to_effective_len
        [''attention_mask'' \<mapsto> \<lparr>ncols = 2, rows = [[0, 0]]\<rparr>,
         ''input_ids'' \<mapsto> \<lparr>ncols = 2, rows = [[0, 0]]\<rparr>] [''input_ids''] True
       = Inr [''attention_mask'' \<mapsto> \<lparr>ncols = 2, rows = [[0, 0]]\<rparr>,
              ''input_ids'' \<mapsto> \<lparr>ncols = 2, rows = [[0, 0]]\<rparr>]
   \<and> cut_to_effective_len
        [''attention_mask'' \<mapsto> \<lparr>ncols = 2, rows = [[0, 0]]\<rparr>,
         ''input_ids'' \<mapsto> \<lparr>ncols = 2, rows = [[0, 0]]\<rparr>] [''input_ids''] False
       = Inr [''attention_mask'' \<mapsto> \<lparr>ncols = 2, rows = [[0, 0]]\<rparr>,
              ''input_ids'' \<mapsto> \<lparr>ncols = 0, rows = [[]]\<rparr>]
   \<and> cut_to_effective_len
        [''attention_mask'' \<mapsto> \<lparr>ncols = 2, rows = []\<rparr>,
         ''input_ids'' \<mapsto> \<lparr>ncols = 2, rows = []\<rparr>] [''input_ids''] False
       = Inl (RuntimeError EmptyReduction)"
  by (simp add: cut_to_effective_len_def cut_to_effective_len_locals_def effective_len_def
        slice_cols_def slice_bounds_def slice_index_def py_slice_def)

text \<open>
  The same in general: an all-zero mask with at least one row has effective length 0;
  the slice \<open>[:, -0:]\<close> keeps a tensor whole, the slice \<open>[:, :0]\<close> leaves no column.
\<close>

lemma max_list_zeros: "xs \<noteq> [] \<Longrightarrow> \<forall>x \<in> set xs. x = (0::int) \<Longrightarrow> max_list xs = 0"
proof -
  have "foldl max (0::int) ys = 0" if "\<forall>y \<in> set ys. y = 0" for ys
    using that by (induction ys) simp_all
  then show "xs \<noteq> [] \<Longrightarrow> \<forall>x \<in> set xs. x = (0::int) \<Longrightarrow> max_list xs = 0"
    by (cases xs) simp_all
qed

lemma effective_len_all_pad:
  assumes "rows m \<noteq> []" and "\<forall>r \<in> set (rows m). \<forall>x \<in> set r. x = 0"
  shows "effective_len m = Inr 0"
proof -
  have "sum_list r = 0" if "\<forall>x \<in> set r. x = 0" for r :: "int list"
    using that by (induction r) simp_all
  with assms(2) have "\<forall>s \<in> set (map sum_list (rows m)). s = 0"
    by simp
  with assms(1) show ?thesis
    by (simp add: effective_len_def max_list_zeros)
qed

lemma slice_cols_minus_zero:
  "wf_tensor t \<Longrightarrow> slice_cols (Some (- 0)) None t = t"
  by (simp add: slice_cols_def slice_bounds_def slice_index_def py_slice_def wf_tensor_def
        list_all_iff map_idI)

lemma slice_cols_to_zero:
  "ncols (slice_cols None (Some 0) t) = 0"
  by (simp add: slice_cols_def slice_bounds_def slice_index_def)

section \<open>Turn-level reconciliation: correctness\<close>

lemma foldl_max_ge: "(a :: 'a :: linorder) \<le> foldl max a xs \<and> (\<forall>x \<in> set xs. x \<le> foldl max a xs)"
proof (induction xs arbitrary: a)
  case Nil
  then show ?case by simp
next
  case (Cons x xs)
  from Cons.IH [of "max a x"] show ?case by (auto simp: max_def split: if_splits)
qed

lemma foldl_max_mem: "foldl max (a :: 'a :: linorder) xs \<in> insert a (set xs)"
proof (induction xs arbitrary: a)
  case Nil
  then show ?case by simp
next
  case (Cons x xs)
  from Cons.IH [of "max a x"] show ?case by (auto simp: max_def split: if_splits)
qed

lemma max_list_Max: "xs \<noteq> [] \<Longrightarrow> max_list xs = Max (set xs)"
proof (cases xs)
  case Nil
  then show "xs \<noteq> [] \<Longrightarrow> ?thesis" by simp
next
  case (Cons a as)
  have "Max (set (a # as)) = foldl max a as"
  proof (rule Max_eqI)
    show "finite (set (a # as))" by simp
    show "y \<le> foldl max a as" if "y \<in> set (a # as)" for y
      using that foldl_max_ge [of a as] by auto
    show "foldl max a as \<in> set (a # as)"
      using foldl_max_mem [of a as] by simp
  qed
  with Cons show ?thesis by simp
qed

lemma map2_replicate:
  "length ys = n \<Longrightarrow> map2 f (replicate n x) ys = map (f x) ys"
  by (induction ys arbitrary: n) auto

lemma assign_block_fill:
  assumes pre: "length pre = b_start" and src: "length src = b" and bm: "b \<le> m"
    and L: "\<forall>s \<in> set src. length s = L" and fit: "start + L \<le> L_max"
  shows "assign_block (pre @ replicate m (replicate L_max c)) b_start b start L src =
           pre @ map (\<lambda>s. replicate start c @ s @ replicate (L_max - (start + L)) c) src
               @ replicate (m - b) (replicate L_max c)"
proof -
  let ?row = "replicate L_max c"
  have t: "take b_start (pre @ replicate m ?row) = pre"
    using pre by simp
  have d: "drop b_start (pre @ replicate m ?row) = replicate m ?row"
    using pre by simp
  have tb: "take b (replicate m ?row) = replicate b ?row"
    using bm by (simp add: min_def)
  have dd: "drop (b_start + b) (pre @ replicate m ?row) = replicate (m - b) ?row"
    using pre by simp
  have st: "take start ?row = replicate start c"
    using fit by (simp add: min_def)
  have "map2 (\<lambda>row s. take start row @ s @ drop (start + L) row) (replicate b ?row) src =
          map (\<lambda>s. take start ?row @ s @ drop (start + L) ?row) src"
    using src by (rule map2_replicate)
  then show ?thesis
    using fit unfolding assign_block_def t d tb dd by (simp add: min_def)
qed

lemma copy_loop_fill:
  assumes "length pre = b_start"
    and "\<forall>(b, t) \<in> set bts. b = length (nd_rows t) \<and> nd_rest t = rest \<and> nd_cols t \<le> L_max
           \<and> (\<forall>r \<in> set (nd_rows t). length r = nd_cols t)"
    and "sum_list (map fst bts) \<le> m"
  shows "copy_loop pad_to_left L_max rest b_start bts (pre @ replicate m (replicate L_max c)) =
           Inr (pre @ concat (map (\<lambda>(b, t). padded_rows pad_to_left L_max c (nd_cols t) (nd_rows t)) bts)
                    @ replicate (m - sum_list (map fst bts)) (replicate L_max c))"
  using assms
proof (induction bts arbitrary: pre b_start m)
  case Nil
  then show ?case by simp
next
  case (Cons bt bts)
  obtain b t where bt: "bt = (b, t)" by (cases bt)
  from Cons.prems(2) bt have b: "b = length (nd_rows t)" and rest: "nd_rest t = rest"
    and le: "nd_cols t \<le> L_max" and rows: "\<forall>r \<in> set (nd_rows t). length r = nd_cols t"
    and tail: "\<forall>(b, t) \<in> set bts. b = length (nd_rows t) \<and> nd_rest t = rest
                 \<and> nd_cols t \<le> L_max \<and> (\<forall>r \<in> set (nd_rows t). length r = nd_cols t)"
    by simp_all
  from Cons.prems(3) bt have bm: "b \<le> m" and sm: "sum_list (map fst bts) \<le> m - b"
    by simp_all
  let ?start = "if pad_to_left then L_max - nd_cols t else 0"
  let ?blk = "padded_rows pad_to_left L_max c (nd_cols t) (nd_rows t)"
  have fit: "?start + nd_cols t \<le> L_max" using le by simp
  have ab: "assign_block (pre @ replicate m (replicate L_max c)) b_start b ?start (nd_cols t)
              (nd_rows t) =
            pre @ map (\<lambda>s. replicate ?start c @ s @ replicate (L_max - (?start + nd_cols t)) c)
                    (nd_rows t)
                @ replicate (m - b) (replicate L_max c)"
    using Cons.prems(1) b [symmetric] bm rows fit by (rule assign_block_fill)
  have "map (\<lambda>s. replicate ?start c @ s @ replicate (L_max - (?start + nd_cols t)) c)
          (nd_rows t) = ?blk"
    using le by (simp add: padded_rows_def)
  with ab have ab': "assign_block (pre @ replicate m (replicate L_max c)) b_start b ?start
                       (nd_cols t) (nd_rows t) =
                     (pre @ ?blk) @ replicate (m - b) (replicate L_max c)"
    by simp
  have len: "length (pre @ ?blk) = b_start + b"
    using Cons.prems(1) b by (simp add: padded_rows_def)
  have "copy_loop pad_to_left L_max rest (b_start + b) bts
          ((pre @ ?blk) @ replicate (m - b) (replicate L_max c)) =
        Inr ((pre @ ?blk)
             @ concat (map (\<lambda>(b, t). padded_rows pad_to_left L_max c (nd_cols t) (nd_rows t)) bts)
             @ replicate (m - b - sum_list (map fst bts)) (replicate L_max c))"
    using len tail sm by (rule Cons.IH)
  with ab' rest bt show ?case by (simp add: Let_def)
qed


lemma zip_map_same: "zip (map f xs) xs = map (\<lambda>x. (f x, x)) xs"
  by (induction xs) simp_all

lemma turn_level_closed_form:
  assumes ne: "ts \<noteq> []" and wf: "\<forall>t \<in> set ts. wf_nd t" and D: "\<forall>t \<in> set ts. nd_rest t = D"
  shows "turn_level_pad_and_concatenate cfg ts pad_to_left =
           Inr \<lparr>nd_cols = Max (set (map nd_cols ts)), nd_rest = D,
                nd_rows = concat (map (\<lambda>t. padded_rows pad_to_left (Max (set (map nd_cols ts)))
                                          (full D (pad_token_id cfg)) (nd_cols t) (nd_rows t)) ts)\<rparr>"
proof -
  from ne obtain t0 us where ts: "ts = t0 # us" by (cases ts) auto
  let ?bs = "map (\<lambda>t. length (nd_rows t)) ts"
  let ?L = "Max (set (map nd_cols ts))"
  let ?c = "full D (pad_token_id cfg)"
  let ?bts = "map (\<lambda>t. (length (nd_rows t), t)) ts"
  have rest: "nd_rest t0 = D" using D ts by simp
  have Lmax: "max_list (map nd_cols ts) = ?L"
    using ne by (simp add: max_list_Max)
  have z: "zip ?bs ts = ?bts" by (rule zip_map_same)
  have cond: "\<forall>(b, t) \<in> set ?bts. b = length (nd_rows t) \<and> nd_rest t = D \<and> nd_cols t \<le> ?L
                \<and> (\<forall>r \<in> set (nd_rows t). length r = nd_cols t)"
  proof -
    have "nd_rest t = D \<and> nd_cols t \<le> ?L \<and> (\<forall>r \<in> set (nd_rows t). length r = nd_cols t)"
      if t: "t \<in> set ts" for t
    proof -
      from t have "nd_cols t \<in> set (map nd_cols ts)" by simp
      then have "nd_cols t \<le> ?L" by (intro Max_ge) simp_all
      moreover from wf t have "\<forall>r \<in> set (nd_rows t). length r = nd_cols t"
        by (simp add: wf_nd_def list_all_iff)
      ultimately show ?thesis using D t by simp
    qed
    then show ?thesis by auto
  qed
  have fsts: "map fst ?bts = ?bs" by (simp add: comp_def)
  have "copy_loop pad_to_left ?L D 0 ?bts ([] @ replicate (sum_list ?bs) (replicate ?L ?c)) =
          Inr ([] @ concat (map (\<lambda>(b, t). padded_rows pad_to_left ?L ?c (nd_cols t) (nd_rows t)) ?bts)
                  @ replicate (sum_list ?bs - sum_list (map fst ?bts)) (replicate ?L ?c))"
    using cond by (intro copy_loop_fill) (simp_all only: fsts list.size order_refl)
  then have "copy_loop pad_to_left ?L D 0 ?bts (replicate (sum_list ?bs) (replicate ?L ?c)) =
          Inr (concat (map (\<lambda>t. padded_rows pad_to_left ?L ?c (nd_cols t) (nd_rows t)) ts))"
    by (simp add: fsts comp_def)
  then show ?thesis
    using ts rest Lmax z
    by (simp add: turn_level_pad_and_concatenate_def Let_def del: max_list.simps)
qed

lemma nth_concat_block:
  "k < length xss \<Longrightarrow> r < length (xss ! k) \<Longrightarrow>
     concat xss ! (sum_list (map length (take k xss)) + r) = xss ! k ! r"
proof (induction xss arbitrary: k)
  case Nil
  then show ?case by simp
next
  case (Cons xs xss)
  show ?case
  proof (cases k)
    case 0
    with Cons.prems show ?thesis by (simp add: nth_append)
  next
    case (Suc j)
    with Cons.prems have "j < length xss" "r < length (xss ! j)" by simp_all
    from Cons.IH [OF this] Suc show ?thesis
      by (simp add: nth_append add.assoc)
  qed
qed

lemma length_padded_rows: "length (padded_rows pad_to_left L_max x L src) = length src"
  by (simp add: padded_rows_def)

lemma padded_rows_nth:
  assumes r: "r < length src" and len: "length (src ! r) = L" and le: "L \<le> L_max"
    and c: "c < L_max"
  shows "padded_rows pad_to_left L_max x L src ! r ! c =
           (let start = (if pad_to_left then L_max - L else 0)
            in if start \<le> c \<and> c < start + L then src ! r ! (c - start) else x)"
  using assms by (auto simp: padded_rows_def nth_append Let_def)


text \<open>
  The entries of the result by position: in the block of input \<open>k\<close>, the entries
  of the input row at their columns, and the fill entry of the model everywhere else.
\<close>

lemma turn_level_entries:
  assumes ne: "ts \<noteq> []" and wf: "\<forall>t \<in> set ts. wf_nd t" and D: "\<forall>t \<in> set ts. nd_rest t = D"
  shows "\<exists>out. turn_level_pad_and_concatenate cfg ts pad_to_left = Inr out
       \<and> nd_cols out = Max (set (map nd_cols ts))
       \<and> nd_rest out = D
       \<and> length (nd_rows out) = sum_list (map (\<lambda>t. length (nd_rows t)) ts)
       \<and> (\<forall>row \<in> set (nd_rows out). length row = nd_cols out)
       \<and> (\<forall>k < length ts. \<forall>r < length (nd_rows (ts ! k)). \<forall>c < nd_cols out.
            nd_rows out ! (row_offset ts k + r) ! c =
              (let L = nd_cols (ts ! k);
                   start = (if pad_to_left then nd_cols out - L else 0)
               in if start \<le> c \<and> c < start + L then nd_rows (ts ! k) ! r ! (c - start)
                  else full D (pad_token_id cfg)))"
proof -
  let ?L = "Max (set (map nd_cols ts))"
  let ?x = "full D (pad_token_id cfg)"
  let ?blk = "\<lambda>t. padded_rows pad_to_left ?L ?x (nd_cols t) (nd_rows t)"
  let ?out = "\<lparr>nd_cols = ?L, nd_rest = D, nd_rows = concat (map ?blk ts)\<rparr>"
  have res: "turn_level_pad_and_concatenate cfg ts pad_to_left = Inr ?out"
    using ne wf D by (rule turn_level_closed_form)
  have le: "nd_cols t \<le> ?L" if "t \<in> set ts" for t
  proof -
    from that have "nd_cols t \<in> set (map nd_cols ts)" by simp
    then show ?thesis by (intro Max_ge) simp_all
  qed
  have rowlen: "length s = nd_cols t" if "t \<in> set ts" "s \<in> set (nd_rows t)" for t s
    using wf that by (auto simp: wf_nd_def list_all_iff)
  have lens: "map length (map ?blk ts) = map (\<lambda>t. length (nd_rows t)) ts"
    by (simp add: padded_rows_def comp_def)
  have len: "length (nd_rows ?out) = sum_list (map (\<lambda>t. length (nd_rows t)) ts)"
  proof -
    have "length (concat (map ?blk ts)) = sum_list (map length (map ?blk ts))"
      by (rule length_concat)
    then show ?thesis unfolding lens by simp
  qed
  have width: "\<forall>row \<in> set (nd_rows ?out). length row = nd_cols ?out"
    using le rowlen by (auto simp: padded_rows_def)
  have cell: "nd_rows ?out ! (row_offset ts k + r) ! c =
              (let L = nd_cols (ts ! k);
                   start = (if pad_to_left then nd_cols ?out - L else 0)
               in if start \<le> c \<and> c < start + L then nd_rows (ts ! k) ! r ! (c - start)
                  else ?x)"
    if k: "k < length ts" and r: "r < length (nd_rows (ts ! k))" and c: "c < nd_cols ?out"
    for k r c
  proof -
    have mem: "ts ! k \<in> set ts" using k by simp
    have off: "row_offset ts k = sum_list (map length (take k (map ?blk ts)))"
      by (simp add: row_offset_def take_map padded_rows_def comp_def)
    have blk: "map ?blk ts ! k = ?blk (ts ! k)" using k by simp
    have "r < length (map ?blk ts ! k)"
      using r k by (simp add: length_padded_rows)
    with k have "concat (map ?blk ts) ! (row_offset ts k + r) = ?blk (ts ! k) ! r"
      unfolding off blk [symmetric] by (intro nth_concat_block) simp_all
    moreover have "?blk (ts ! k) ! r ! c =
        (let start = (if pad_to_left then ?L - nd_cols (ts ! k) else 0)
         in if start \<le> c \<and> c < start + nd_cols (ts ! k)
            then nd_rows (ts ! k) ! r ! (c - start) else ?x)"
    proof (rule padded_rows_nth)
      show "r < length (nd_rows (ts ! k))" by (rule r)
      show "length (nd_rows (ts ! k) ! r) = nd_cols (ts ! k)"
        using mem r by (intro rowlen) simp_all
      show "nd_cols (ts ! k) \<le> ?L" using mem by (rule le)
      show "c < ?L" using c by simp
    qed
    ultimately show ?thesis by (simp only: Let_def nd_tensor.select_convs)
  qed
  from res len width cell show ?thesis
    by (intro exI [of _ ?out]) simp
qed


text \<open>
  With a trailing shape: inputs of shapes \<open>(1, 1, 2)\<close> and \<open>(1, 2, 2)\<close> give shape
  \<open>(2, 2, 2)\<close>, and the fill entry is a block of two pad tokens.
\<close>

lemma turn_level_trailing_example:
  "turn_level_pad_and_concatenate
     \<lparr>pad_token_id = 0, max_prompt_length = 8, max_obs_length = 8, max_start_length = 8\<rparr>
     [\<lparr>nd_cols = 1, nd_rest = [2], nd_rows = [[Block [Scalar 1, Scalar 2]]]\<rparr>,
      \<lparr>nd_cols = 2, nd_rest = [2],
        nd_rows = [[Block [Scalar 3, Scalar 4], Block [Scalar 5, Scalar 6]]]\<rparr>] True
   = Inr \<lparr>nd_cols = 2, nd_rest = [2],
          nd_rows = [[Block [Scalar 0, Scalar 0], Block [Scalar 1, Scalar 2]],
                     [Block [Scalar 3, Scalar 4], Block [Scalar 5, Scalar 6]]]\<rparr>"
  by (simp add: turn_level_pad_and_concatenate_def assign_block_def Let_def
        numeral_2_eq_2 eval_nat_numeral)

section \<open>Turn-level reconciliation: the fill entries\<close>

text \<open>
  The fill entry of \<open>new_full\<close> has the trailing shape and holds only the fill value,
  and it is the only entry with these two properties.
\<close>

lemma has_shape_full: "has_shape D (full D v)"
  by (induction D) simp_all

lemma cell_values_full: "x \<in> set (cell_values (full D v)) \<Longrightarrow> x = v"
  by (induction D arbitrary: x) auto

lemma length_cell_values: "has_shape D c \<Longrightarrow> length (cell_values c) = prod_list D"
proof (induction D arbitrary: c)
  case Nil
  then show ?case by (cases c) simp_all
next
  case (Cons d ds)
  from Cons.prems obtain cs where c: "c = Block cs" and len: "length cs = d"
    and sh: "\<forall>e \<in> set cs. has_shape ds e"
    by (cases c) auto
  have "map (\<lambda>e. length (cell_values e)) cs = replicate (length cs) (prod_list ds)"
    using sh Cons.IH by (induction cs) simp_all
  then have "sum_list (map (\<lambda>e. length (cell_values e)) cs) = length cs * prod_list ds"
    by (simp add: sum_list_replicate)
  with c len show ?case by (simp add: length_concat comp_def)
qed

lemma fill_unique:
  "has_shape D c \<Longrightarrow> \<forall>x \<in> set (cell_values c). x = v \<Longrightarrow> c = full D v"
proof (induction D arbitrary: c)
  case Nil
  then show ?case by (cases c) simp_all
next
  case (Cons d ds)
  from Cons.prems(1) obtain cs where c: "c = Block cs" and len: "length cs = d"
    and sh: "\<forall>e \<in> set cs. has_shape ds e"
    by (cases c) auto
  have "e = full ds v" if "e \<in> set cs" for e
  proof (rule Cons.IH)
    show "has_shape ds e" using sh that by simp
    show "\<forall>x \<in> set (cell_values e). x = v" using Cons.prems(2) c that by auto
  qed
  then have "replicate (length cs) (full ds v) = cs"
    by (intro replicate_length_same) simp
  with c len show ?case by simp
qed


lemma wf_nd_closed_form:
  assumes wf: "\<forall>t \<in> set ts. wf_nd t" and D: "\<forall>t \<in> set ts. nd_rest t = D"
  shows "wf_nd \<lparr>nd_cols = Max (set (map nd_cols ts)), nd_rest = D,
                nd_rows = concat (map (\<lambda>t. padded_rows pad_to_left (Max (set (map nd_cols ts)))
                                          (full D v) (nd_cols t) (nd_rows t)) ts)\<rparr>"
proof -
  let ?L = "Max (set (map nd_cols ts))"
  have "length row = ?L \<and> (\<forall>e \<in> set row. has_shape D e)"
    if t: "t \<in> set ts" and row: "row \<in> set (padded_rows pad_to_left ?L (full D v) (nd_cols t) (nd_rows t))"
    for t row
  proof -
    from t have "nd_cols t \<in> set (map nd_cols ts)" by simp
    then have le: "nd_cols t \<le> ?L" by (intro Max_ge) simp_all
    let ?f = "\<lambda>s. if pad_to_left then replicate (?L - nd_cols t) (full D v) @ s
                   else s @ replicate (?L - nd_cols t) (full D v)"
    from row have "row \<in> ?f ` set (nd_rows t)" by (simp add: padded_rows_def)
    then obtain s where s: "s \<in> set (nd_rows t)" and r: "row = ?f s" by blast
    from wf D t s have len: "length s = nd_cols t" and sh: "\<forall>e \<in> set s. has_shape D e"
      by (auto simp: wf_nd_def list_all_iff)
    from r len le have "length row = ?L" by auto
    moreover from r sh have "\<forall>e \<in> set row. has_shape D e"
      by (auto simp: has_shape_full)
    ultimately show ?thesis by simp
  qed
  then show ?thesis
    by (auto simp: wf_nd_def list_all_iff)
qed

text \<open>
  Claim C3. For a non-empty list of tensors of shapes \<open>(b_i, L_i, *D)\<close> with one
  trailing shape \<open>D\<close>, \<open>_turn_level_pad_and_concatenate\<close> returns a tensor of shape
  \<open>(sum of b_i, L_max, *D)\<close>, \<open>L_max\<close> the largest \<open>L_i\<close>: every row has
  \<open>L_max\<close> entries and every entry has shape \<open>D\<close>. The rows of input \<open>k\<close> are
  the output rows from \<open>row_offset ts k\<close> on, the sum of the row counts of the inputs
  before it: blocks in input order, none interleaved. In row \<open>r\<close> of that block the
  entries of the input row stand at columns \<open>0..L_k - 1\<close> when \<open>pad_to_left\<close> is
  false and at columns \<open>L_max - L_k..L_max - 1\<close> when it is true. Every other entry of
  the block has shape \<open>D\<close> and holds the pad token id and nothing else, in all of
  its \<open>prod D\<close> places; when \<open>D\<close> is empty it is the scalar pad token id.
\<close>

theorem turn_level_pad_and_concatenate_blocks:
  assumes ne: "ts \<noteq> []" and wf: "\<forall>t \<in> set ts. wf_nd t" and D: "\<forall>t \<in> set ts. nd_rest t = D"
  shows "\<exists>out. turn_level_pad_and_concatenate cfg ts pad_to_left = Inr out
       \<and> nd_cols out = Max (set (map nd_cols ts))
       \<and> nd_rest out = D
       \<and> length (nd_rows out) = sum_list (map (\<lambda>t. length (nd_rows t)) ts)
       \<and> wf_nd out
       \<and> (\<forall>k < length ts. \<forall>r < length (nd_rows (ts ! k)). \<forall>c < nd_cols out.
            let L = nd_cols (ts ! k);
                start = (if pad_to_left then nd_cols out - L else 0);
                entry = nd_rows out ! (row_offset ts k + r) ! c
            in if start \<le> c \<and> c < start + L then entry = nd_rows (ts ! k) ! r ! (c - start)
               else has_shape D entry
                  \<and> length (cell_values entry) = prod_list D
                  \<and> (\<forall>v \<in> set (cell_values entry). v = pad_token_id cfg)
                  \<and> (D = [] \<longrightarrow> entry = Scalar (pad_token_id cfg)))"
proof -
  let ?x = "full D (pad_token_id cfg)"
  let ?out = "\<lparr>nd_cols = Max (set (map nd_cols ts)), nd_rest = D,
                nd_rows = concat (map (\<lambda>t. padded_rows pad_to_left (Max (set (map nd_cols ts)))
                                          ?x (nd_cols t) (nd_rows t)) ts)\<rparr>"
  from turn_level_entries [OF ne wf D, of cfg pad_to_left] obtain out
    where res: "turn_level_pad_and_concatenate cfg ts pad_to_left = Inr out"
      and cols: "nd_cols out = Max (set (map nd_cols ts))"
      and rest: "nd_rest out = D"
      and len: "length (nd_rows out) = sum_list (map (\<lambda>t. length (nd_rows t)) ts)"
      and cell: "\<forall>k < length ts. \<forall>r < length (nd_rows (ts ! k)). \<forall>c < nd_cols out.
            nd_rows out ! (row_offset ts k + r) ! c =
              (let L = nd_cols (ts ! k);
                   start = (if pad_to_left then nd_cols out - L else 0)
               in if start \<le> c \<and> c < start + L then nd_rows (ts ! k) ! r ! (c - start)
                  else ?x)"
    by blast
  have "turn_level_pad_and_concatenate cfg ts pad_to_left = Inr ?out"
    using ne wf D by (rule turn_level_closed_form)
  with res have "out = ?out" by simp
  moreover have "wf_nd ?out" using wf D by (rule wf_nd_closed_form)
  ultimately have wfo: "wf_nd out" by simp
  have sh: "has_shape D ?x" by (rule has_shape_full)
  have cnt: "length (cell_values ?x) = prod_list D"
    using sh by (rule length_cell_values)
  have vals: "\<forall>v \<in> set (cell_values ?x). v = pad_token_id cfg"
    using cell_values_full [of _ D "pad_token_id cfg"] by blast
  have sc: "D = [] \<longrightarrow> ?x = Scalar (pad_token_id cfg)" by simp
  have entry: "let L = nd_cols (ts ! k);
                start = (if pad_to_left then nd_cols out - L else 0);
                entry = nd_rows out ! (row_offset ts k + r) ! c
            in if start \<le> c \<and> c < start + L then entry = nd_rows (ts ! k) ! r ! (c - start)
               else has_shape D entry
                  \<and> length (cell_values entry) = prod_list D
                  \<and> (\<forall>v \<in> set (cell_values entry). v = pad_token_id cfg)
                  \<and> (D = [] \<longrightarrow> entry = Scalar (pad_token_id cfg))"
    if k: "k < length ts" and r: "r < length (nd_rows (ts ! k))" and c: "c < nd_cols out"
    for k r c
  proof -
    let ?start = "if pad_to_left then nd_cols out - nd_cols (ts ! k) else 0"
    let ?e = "nd_rows out ! (row_offset ts k + r) ! c"
    from cell k r c have e: "?e =
        (if ?start \<le> c \<and> c < ?start + nd_cols (ts ! k)
         then nd_rows (ts ! k) ! r ! (c - ?start) else ?x)"
      by (simp only: Let_def)
    show ?thesis
    proof (cases "?start \<le> c \<and> c < ?start + nd_cols (ts ! k)")
      case True
      with e have "?e = nd_rows (ts ! k) ! r ! (c - ?start)"
        by (simp only: simp_thms if_True)
      with True show ?thesis
        by (simp only: Let_def simp_thms if_True)
    next
      case False
      with e have x: "?e = ?x" by (simp only: if_False)
      have "has_shape D ?e \<and> length (cell_values ?e) = prod_list D
          \<and> (\<forall>v \<in> set (cell_values ?e). v = pad_token_id cfg)
          \<and> (D = [] \<longrightarrow> ?e = Scalar (pad_token_id cfg))"
        unfolding x using sh cnt vals sc by blast
      with False show ?thesis
        by (simp only: Let_def if_False) blast
    qed
  qed
  from res cols rest len wfo entry show ?thesis by blast
qed


theorem turn_level_pad_and_concatenate_blocks_witness:
  "[\<lparr>nd_cols = 3, nd_rest = [],
      nd_rows = [[Scalar 1, Scalar 2, Scalar 3], [Scalar 4, Scalar 5, Scalar 6]]\<rparr>,
    \<lparr>nd_cols = 5, nd_rest = [],
      nd_rows = [[Scalar 8, Scalar 9, Scalar 10, Scalar 11, Scalar 12]]\<rparr>] \<noteq> []
   \<and> wf_nd \<lparr>nd_cols = 3, nd_rest = [],
        nd_rows = [[Scalar 1, Scalar 2, Scalar 3], [Scalar 4, Scalar 5, Scalar 6]]\<rparr>
   \<and> wf_nd \<lparr>nd_cols = 5, nd_rest = [],
        nd_rows = [[Scalar 8, Scalar 9, Scalar 10, Scalar 11, Scalar 12]]\<rparr>
   \<and> turn_level_pad_and_concatenate
        \<lparr>pad_token_id = 7, max_prompt_length = 8, max_obs_length = 8, max_start_length = 8\<rparr>
        [\<lparr>nd_cols = 3, nd_rest = [],
           nd_rows = [[Scalar 1, Scalar 2, Scalar 3], [Scalar 4, Scalar 5, Scalar 6]]\<rparr>,
         \<lparr>nd_cols = 5, nd_rest = [],
           nd_rows = [[Scalar 8, Scalar 9, Scalar 10, Scalar 11, Scalar 12]]\<rparr>] False
       = Inr \<lparr>nd_cols = 5, nd_rest = [],
              nd_rows = [[Scalar 1, Scalar 2, Scalar 3, Scalar 7, Scalar 7],
                         [Scalar 4, Scalar 5, Scalar 6, Scalar 7, Scalar 7],
                         [Scalar 8, Scalar 9, Scalar 10, Scalar 11, Scalar 12]]\<rparr>
   \<and> wf_nd \<lparr>nd_cols = 1, nd_rest = [2], nd_rows = [[Block [Scalar 1, Scalar 2]]]\<rparr>
   \<and> wf_nd \<lparr>nd_cols = 2, nd_rest = [2],
        nd_rows = [[Block [Scalar 3, Scalar 4], Block [Scalar 5, Scalar 6]]]\<rparr>
   \<and> turn_level_pad_and_concatenate
        \<lparr>pad_token_id = 7, max_prompt_length = 8, max_obs_length = 8, max_start_length = 8\<rparr>
        [\<lparr>nd_cols = 1, nd_rest = [2], nd_rows = [[Block [Scalar 1, Scalar 2]]]\<rparr>,
         \<lparr>nd_cols = 2, nd_rest = [2],
           nd_rows = [[Block [Scalar 3, Scalar 4], Block [Scalar 5, Scalar 6]]]\<rparr>] True
       = Inr \<lparr>nd_cols = 2, nd_rest = [2],
              nd_rows = [[Block [Scalar 7, Scalar 7], Block [Scalar 1, Scalar 2]],
                         [Block [Scalar 3, Scalar 4], Block [Scalar 5, Scalar 6]]]\<rparr>
   \<and> has_shape [2] (Block [Scalar 7, Scalar 7])
   \<and> cell_values (Block [Scalar 7, Scalar 7]) = [7, 7]"
proof -
  let ?cfg = "\<lparr>pad_token_id = 7, max_prompt_length = 8, max_obs_length = 8,
                max_start_length = 8\<rparr>"
  let ?a = "\<lparr>nd_cols = 3, nd_rest = [],
             nd_rows = [[Scalar 1, Scalar 2, Scalar 3], [Scalar 4, Scalar 5, Scalar 6]]\<rparr>"
  let ?b = "\<lparr>nd_cols = 5, nd_rest = [],
             nd_rows = [[Scalar 8, Scalar 9, Scalar 10, Scalar 11, Scalar 12]]\<rparr>"
  let ?c = "\<lparr>nd_cols = 1, nd_rest = [2], nd_rows = [[Block [Scalar 1, Scalar 2]]]\<rparr>"
  let ?d = "\<lparr>nd_cols = 2, nd_rest = [2],
             nd_rows = [[Block [Scalar 3, Scalar 4], Block [Scalar 5, Scalar 6]]]\<rparr>"
  have ne: "[?a, ?b] \<noteq> []" by simp
  have wf: "\<forall>t \<in> set [?a, ?b]. wf_nd t" by (simp add: wf_nd_def)
  have D: "\<forall>t \<in> set [?a, ?b]. nd_rest t = []" by simp
  have ne2: "[?c, ?d] \<noteq> []" by simp
  have wf2: "\<forall>t \<in> set [?c, ?d]. wf_nd t" by (simp add: wf_nd_def)
  have D2: "\<forall>t \<in> set [?c, ?d]. nd_rest t = [2]" by simp
  have right: "turn_level_pad_and_concatenate ?cfg [?a, ?b] False
       = Inr \<lparr>nd_cols = 5, nd_rest = [],
              nd_rows = [[Scalar 1, Scalar 2, Scalar 3, Scalar 7, Scalar 7],
                         [Scalar 4, Scalar 5, Scalar 6, Scalar 7, Scalar 7],
                         [Scalar 8, Scalar 9, Scalar 10, Scalar 11, Scalar 12]]\<rparr>"
    by (simp add: turn_level_pad_and_concatenate_def assign_block_def Let_def
          numeral_2_eq_2 numeral_3_eq_3 eval_nat_numeral)
  have left: "turn_level_pad_and_concatenate ?cfg [?c, ?d] True
       = Inr \<lparr>nd_cols = 2, nd_rest = [2],
              nd_rows = [[Block [Scalar 7, Scalar 7], Block [Scalar 1, Scalar 2]],
                         [Block [Scalar 3, Scalar 4], Block [Scalar 5, Scalar 6]]]\<rparr>"
    by (simp add: turn_level_pad_and_concatenate_def assign_block_def Let_def
          numeral_2_eq_2 eval_nat_numeral)
  from turn_level_pad_and_concatenate_blocks [OF ne wf D, of ?cfg False]
    turn_level_pad_and_concatenate_blocks [OF ne2 wf2 D2, of ?cfg True]
    right left wf wf2
  show ?thesis by simp
qed

end
